theory Spec2Isabelle
  imports
    Main
    "HOL-Library.Multiset"
    "HOL-Library.Char_ord"
    "HOL-Library.List_Lexorder"
    "HOL-Library.Product_Lexorder"
begin

section \<open>Data model\<close>

text \<open>
  A spreadsheet cell as pandas holds it: a missing value (\<open>NaN\<close> or \<open>None\<close>), a number
  or a string. Numbers are kept as integers; the program never computes with them, it only
  compares and sorts them.
\<close>

datatype cell = Null | Num int | Str string

text \<open>
  A data frame: the list of column names and the rows, each row giving the cell of every
  column name. The index of a frame is the position of the row: the loader concatenates
  with \<open>ignore_index=True\<close>, so the labels are \<open>0, 1, 2, ...\<close>.
\<close>

type_synonym row = "string \<Rightarrow> cell"

record table =
  columns :: "string list"
  rows :: "row list"

datatype error = KeyError | TypeError | IndexError | ValueError | InvalidIndexError | StreamlitAPIException

text \<open>\<open>HOUSE_COLORS\<close>: a dict literal, which iterates in the order written.\<close>

definition HOUSE_COLORS :: "(string \<times> string) list" where
  "HOUSE_COLORS =
     [(''House A'', ''#FF9999''),
      (''House B'', ''#99CCFF''),
      (''House C'', ''#99FF99''),
      (''House D'', ''#FFCC99'')]"

definition HOUSE_COLORS_keys :: "string list" where
  "HOUSE_COLORS_keys = map fst HOUSE_COLORS"

section \<open>The random generator\<close>

text \<open>
  The state of the generator is the infinite sequence of the draws it has still to give.
  \<open>random.shuffle\<close> is the library's loop
  \<^verbatim>\<open>for i in reversed(range(1, len(x))): j = randbelow(i + 1); x[i], x[j] = x[j], x[i]\<close>.
\<close>

type_synonym rng = "nat \<Rightarrow> nat"

definition randbelow :: "nat \<Rightarrow> rng \<Rightarrow> nat \<times> rng" where
  "randbelow n g = (g 0 mod n, (\<lambda>k. g (Suc k)))"

fun shuffle_from :: "nat \<Rightarrow> 'a list \<Rightarrow> rng \<Rightarrow> 'a list \<times> rng" where
  "shuffle_from 0 x g = (x, g)"
| "shuffle_from (Suc i) x g =
     (case randbelow (Suc i + 1) g of
        (j, g') \<Rightarrow> shuffle_from i (x[Suc i := x ! j, j := x ! Suc i]) g')"

definition shuffle :: "'a list \<Rightarrow> rng \<Rightarrow> 'a list \<times> rng" where
  "shuffle x g = shuffle_from (length x - 1) x g"

section \<open>The store\<close>

text \<open>
  Data frames are objects: a variable holds a reference, and \<open>df.copy()\<close> makes a new
  object. The store maps references to frames; \<open>next_ref\<close> is the first reference not
  yet given out. The generator is part of the world as well.
\<close>

record world =
  frames :: "nat \<Rightarrow> table"
  next_ref :: nat
  gen :: rng

definition df_copy :: "nat \<Rightarrow> world \<Rightarrow> nat \<times> world" where
  "df_copy df w =
     (next_ref w,
      w\<lparr>frames := (frames w)(next_ref w := frames w df), next_ref := Suc (next_ref w)\<rparr>)"

text \<open>\<open>frame[col] = v\<close> with a scalar: the column is added when new, and every row gets \<open>v\<close>.\<close>

definition table_set_column :: "string \<Rightarrow> cell \<Rightarrow> table \<Rightarrow> table" where
  "table_set_column col v t =
     \<lparr>columns = (if col \<in> set (columns t) then columns t else columns t @ [col]),
      rows = map (\<lambda>r. r(col := v)) (rows t)\<rparr>"

definition set_column :: "nat \<Rightarrow> string \<Rightarrow> cell \<Rightarrow> world \<Rightarrow> world" where
  "set_column a col v w = w\<lparr>frames := (frames w)(a := table_set_column col v (frames w a))\<rparr>"

text \<open>\<open>frame.at[idx, col] = v\<close>.\<close>

definition table_at_set :: "nat \<Rightarrow> string \<Rightarrow> cell \<Rightarrow> table \<Rightarrow> table" where
  "table_at_set idx col v t = t\<lparr>rows := (rows t)[idx := (rows t ! idx)(col := v)]\<rparr>"

definition at_set :: "nat \<Rightarrow> nat \<Rightarrow> string \<Rightarrow> cell \<Rightarrow> world \<Rightarrow> world" where
  "at_set a idx col v w = w\<lparr>frames := (frames w)(a := table_at_set idx col v (frames w a))\<rparr>"

section \<open>House assignment\<close>

text \<open>
  \<open>df.groupby(["Stream", "Semester", "Gender"])\<close>: a missing column is a \<open>KeyError\<close>; rows
  with a missing value in a key column belong to no group; the groups come in the sorted
  order of their keys, numbers before strings in a column that mixes them; each group
  lists the index labels of its rows in the order of the frame.
\<close>

type_synonym group_key = "cell \<times> cell \<times> cell"

definition group_key :: "row \<Rightarrow> group_key" where
  "group_key r = (r ''Stream'', r ''Semester'', r ''Gender'')"

fun key_has_null :: "group_key \<Rightarrow> bool" where
  "key_has_null (a, b, c) = (a = Null \<or> b = Null \<or> c = Null)"

fun cell_rank :: "cell \<Rightarrow> nat \<times> int \<times> string" where
  "cell_rank (Num n) = (0, n, [])"
| "cell_rank (Str s) = (1, 0, s)"
| "cell_rank Null = (2, 0, [])"

fun key_rank :: "group_key \<Rightarrow> (nat \<times> int \<times> string) \<times> (nat \<times> int \<times> string) \<times> (nat \<times> int \<times> string)" where
  "key_rank (a, b, c) = (cell_rank a, cell_rank b, cell_rank c)"

definition groupby :: "table \<Rightarrow> error + (group_key \<times> nat list) list" where
  "groupby df =
     (if \<not> set [''Stream'', ''Semester'', ''Gender''] \<subseteq> set (columns df) then Inl KeyError
      else
        let labelled = filter (\<lambda>(idx, r). \<not> key_has_null (group_key r)) (enumerate 0 (rows df));
            keys = sort_key key_rank (remdups (map (\<lambda>(idx, r). group_key r) labelled))
        in Inr (map (\<lambda>k. (k, map fst (filter (\<lambda>(idx, r). group_key r = k) labelled))) keys))"

text \<open>
  The counters: a dict from gender to a \<open>defaultdict(int)\<close> from house to count. The
  outer dict raises \<open>KeyError\<close> on a gender it does not hold; the inner one gives 0.
\<close>

type_synonym counters = "cell \<rightharpoonup> (string \<Rightarrow> int)"

text \<open>
  The inner loop \<open>for i, idx in enumerate(students)\<close>, on the inner dict \<open>c\<close> of the
  group's gender and the frame at reference \<open>a\<close>.
\<close>

fun assign_students ::
  "nat \<Rightarrow> string list \<Rightarrow> (nat \<times> nat) list \<Rightarrow> (string \<Rightarrow> int) \<times> world \<Rightarrow> (string \<Rightarrow> int) \<times> world" where
  "assign_students a house_cycle [] (c, w) = (c, w)"
| "assign_students a house_cycle ((i, idx) # rest) (c, w) =
     (let house = house_cycle ! (i mod 4)
      in assign_students a house_cycle rest
           (c(house := c house + 1), at_set a idx ''House'' (Str house) w))"

text \<open>The outer loop over the groups. \<open>sorted\<close> is stable, as \<open>sort_key\<close> is.\<close>

fun assign_groups ::
  "nat \<Rightarrow> (group_key \<times> nat list) list \<Rightarrow> counters \<times> world \<Rightarrow> error + counters \<times> world" where
  "assign_groups a [] (cnt, w) = Inr (cnt, w)"
| "assign_groups a (((stream, sem, gender), group_index) # gs) (cnt, w) =
     (case shuffle group_index (gen w) of
        (students, g') \<Rightarrow>
          (case cnt gender of
             None \<Rightarrow> Inl KeyError
           | Some c \<Rightarrow>
               let house_order = sort_key c HOUSE_COLORS_keys;
                   house_cycle = concat (replicate (length students div 4 + 1) house_order)
               in (case assign_students a house_cycle (enumerate 0 students) (c, w\<lparr>gen := g'\<rparr>) of
                     (c', w') \<Rightarrow> assign_groups a gs (cnt(gender \<mapsto> c'), w'))))"

definition assign_houses :: "nat \<Rightarrow> counters \<Rightarrow> world \<Rightarrow> error + nat \<times> counters \<times> world" where
  "assign_houses df global_house_counts w =
     (case df_copy df w of
        (assigned_df, w1) \<Rightarrow>
          let w2 = set_column assigned_df ''House'' Null w1
          in (case groupby (frames w2 df) of
                Inl e \<Rightarrow> Inl e
              | Inr groups \<Rightarrow>
                  (case assign_groups assigned_df groups (global_house_counts, w2) of
                     Inl e \<Rightarrow> Inl e
                   | Inr (cnt', w') \<Rightarrow> Inr (assigned_df, cnt', w'))))"


text \<open>
  The world when the loop over the groups starts: the copy is made and its House column
  is set to \<open>None\<close>.
\<close>

definition loop_start :: "nat \<Rightarrow> world \<Rightarrow> world" where
  "loop_start df w = set_column (fst (df_copy df w)) ''House'' Null (snd (df_copy df w))"

text \<open>
  The effect of the inner loop on the rows of the frame it writes to, for the proofs:
  \<open>n\<close> is the position in the cycle of the first student of \<open>xs\<close>.
\<close>

fun assign_rows :: "string list \<Rightarrow> nat \<Rightarrow> nat list \<Rightarrow> row list \<Rightarrow> row list" where
  "assign_rows cyc n [] rs = rs"
| "assign_rows cyc n (idx # xs) rs =
     assign_rows cyc (Suc n) xs (rs[idx := (rs ! idx)(''House'' := Str (cyc ! (n mod 4)))])"

text \<open>
  A group is assigned when its rows, in some order, carry the houses of some order of the
  four labels, taken cyclically, and are otherwise as before.
\<close>

definition group_assigned :: "row list \<Rightarrow> row list \<Rightarrow> nat list \<Rightarrow> bool" where
  "group_assigned rs rs' idxs \<longleftrightarrow>
     (\<exists>ord xs. mset ord = mset HOUSE_COLORS_keys \<and> mset xs = mset idxs \<and>
        (\<forall>i < length xs. rs' ! (xs ! i) = (rs ! (xs ! i))(''House'' := Str (ord ! (i mod 4)))))"

text \<open>The number of rows of a group that carry a given house.\<close>

definition group_house_count :: "table \<Rightarrow> group_key \<Rightarrow> string \<Rightarrow> nat" where
  "group_house_count t k h =
     length (filter (\<lambda>r. group_key r = k \<and> r ''House'' = Str h) (rows t))"

text \<open>
  The order the specification describes: ascending by the counter, ties by the position in
  the palette.
\<close>

definition palette_position :: "string \<Rightarrow> nat" where
  "palette_position h = length (takeWhile (\<lambda>k. k \<noteq> h) HOUSE_COLORS_keys)"

definition visits_before :: "(string \<Rightarrow> int) \<Rightarrow> string \<Rightarrow> string \<Rightarrow> bool" where
  "visits_before c h1 h2 \<longleftrightarrow>
     c h1 < c h2 \<or> (c h1 = c h2 \<and> palette_position h1 < palette_position h2)"

text \<open>The counters every page starts from: \<open>{"M": defaultdict(int), "F": defaultdict(int)}\<close>.\<close>

definition fresh_counts :: counters where
  "fresh_counts = [Str ''M'' \<mapsto> (\<lambda>h. 0), Str ''F'' \<mapsto> (\<lambda>h. 0)]"

section \<open>Frame operations\<close>

text \<open>A column of a frame, and \<open>Series.unique()\<close>: the values in the order they first appear.\<close>

definition column :: "string \<Rightarrow> table \<Rightarrow> cell list" where
  "column col t = map (\<lambda>r. r col) (rows t)"

definition unique :: "cell list \<Rightarrow> cell list" where
  "unique xs = rev (remdups (rev xs))"

fun is_Str :: "cell \<Rightarrow> bool" where
  "is_Str (Str s) = True"
| "is_Str c = False"

fun is_Num :: "cell \<Rightarrow> bool" where
  "is_Num (Num n) = True"
| "is_Num c = False"

text \<open>
  Python's \<open>sorted\<close> on the values of a column: comparing a string with a number or with
  \<open>NaN\<close> raises \<open>TypeError\<close>. (Where \<open>NaN\<close> stands among numbers Python raises nothing; the
  order it then leaves is not modelled, and no result of the program depends on it.)
\<close>

definition py_sorted :: "cell list \<Rightarrow> error + cell list" where
  "py_sorted xs =
     (if list_ex is_Str xs \<and> list_ex (\<lambda>x. \<not> is_Str x) xs then Inl TypeError
      else Inr (sort_key cell_rank xs))"

text \<open>The elementwise \<open>==\<close> of a column with a value: a missing cell equals nothing.\<close>

definition cell_eq :: "cell \<Rightarrow> cell \<Rightarrow> bool" where
  "cell_eq a b \<longleftrightarrow> a \<noteq> Null \<and> a = b"

text \<open>\<open>frame[cols]\<close> with a list of column names.\<close>

definition select_columns :: "string list \<Rightarrow> table \<Rightarrow> error + table" where
  "select_columns cols t =
     (if \<not> set cols \<subseteq> set (columns t) then Inl KeyError
      else Inr \<lparr>columns = cols,
                rows = map (\<lambda>r col. if col \<in> set cols then r col else Null) (rows t)\<rparr>)"

text \<open>
  \<open>frame.sort_values(col)\<close>: ascending, missing values last; a column that mixes strings
  and numbers raises \<open>TypeError\<close>. Rows of equal value are kept in the order of the frame
  (the library's default sort makes no promise about them).
\<close>

definition sort_values :: "string \<Rightarrow> table \<Rightarrow> error + table" where
  "sort_values col t =
     (if col \<notin> set (columns t) then Inl KeyError
      else if list_ex is_Str (column col t) \<and> list_ex is_Num (column col t) then Inl TypeError
      else Inr (t\<lparr>rows := sort_key (\<lambda>r. cell_rank (r col)) (rows t)\<rparr>))"

text \<open>\<open>frame[frame[col].isin(values)]\<close>; \<open>isin\<close> finds a missing value among missing values.\<close>

definition isin_rows :: "string \<Rightarrow> cell list \<Rightarrow> table \<Rightarrow> table" where
  "isin_rows col values t = t\<lparr>rows := filter (\<lambda>r. r col \<in> set values) (rows t)\<rparr>"

section \<open>The export\<close>

text \<open>
  A workbook is the list of its worksheets in the order they were made; a worksheet has a
  title, a header row and the rows under it. The bytes of the \<open>.xlsx\<close> file are not
  modelled.
\<close>

record sheet =
  title :: string
  header :: "string list"
  body :: "cell list list"

type_synonym workbook = "sheet list"

definition display_cols :: "string list" where
  "display_cols =
     [''Enrollment No'', ''Student Name'', ''Gender'', ''Stream'', ''Semester'', ''House'']"

text \<open>The characters a worksheet title must not hold: \<open>\ * ? : / [ ]\<close>.\<close>

definition invalid_title_chars :: "char list" where
  "invalid_title_chars =
     [CHR 0x5C, CHR ''*'', CHR ''?'', CHR '':'', CHR ''/'', CHR ''['', CHR '']'']"

text \<open>
  \<open>export_df.to_excel(writer, sheet_name=sheet_name, index=False)\<close> on a writer opened for
  writing: a title the workbook has not yet makes a new worksheet (\<open>ValueError\<close> on a
  forbidden character); a title it already has names that worksheet, and the cells are
  written over the ones there, from the first row on, so that old rows below the new
  ones stay. (The library gives a new worksheet whose title differs from an old one only
  in the case of its letters a number after the title; the model keeps the title as it
  is given. The cells of the worksheets are the same.)
\<close>

definition to_excel :: "table \<Rightarrow> string \<Rightarrow> workbook \<Rightarrow> error + workbook" where
  "to_excel export_df sheet_name wb =
     (let cells = map (\<lambda>r. map r (columns export_df)) (rows export_df)
      in if sheet_name \<in> set (map title wb)
         then Inr (map (\<lambda>s. if title s = sheet_name
                              then s\<lparr>header := columns export_df,
                                     body := cells @ drop (length cells) (body s)\<rparr>
                              else s) wb)
         else if list_ex (\<lambda>c. c \<in> set invalid_title_chars) sheet_name then Inl ValueError
         else Inr (wb @ [\<lparr>title = sheet_name, header = columns export_df, body = cells\<rparr>]))"

text \<open>
  An exception inside the \<open>with\<close> block. Leaving the block saves the workbook first, and
  saving a workbook that has no worksheet raises \<open>IndexError\<close>, which is then the exception
  the caller sees. (When \<open>to_excel\<close> raises for a title, the worksheet has been made already,
  and the \<open>ValueError\<close> is what the caller sees.)
\<close>

definition writer_raise :: "workbook \<Rightarrow> error \<Rightarrow> error + workbook" where
  "writer_raise wb e = Inl (if List.null wb then IndexError else e)"

text \<open>
  The body of the loop \<open>for gender in ["M", "F"]\<close>, for one stream and one gender. A stream
  that is a number cannot be sliced (\<open>IndexError\<close>, the values of \<open>unique()\<close> being the
  library's scalars); a missing stream equals no cell, so its rows are none.
\<close>

definition export_gender :: "table \<Rightarrow> cell \<Rightarrow> string \<Rightarrow> workbook \<Rightarrow> error + workbook" where
  "export_gender df stream gender wb =
     (if ''Gender'' \<notin> set (columns df) then writer_raise wb KeyError
      else
        let gender_df = df\<lparr>rows := filter (\<lambda>r. cell_eq (r ''Stream'') stream
                                           \<and> cell_eq (r ''Gender'') (Str gender)) (rows df)\<rparr>
        in if List.null (rows gender_df) then Inr wb
           else (case select_columns display_cols gender_df of
                   Inl e \<Rightarrow> writer_raise wb e
                 | Inr projected \<Rightarrow>
                     (case sort_values ''House'' projected of
                        Inl e \<Rightarrow> writer_raise wb e
                      | Inr export_df \<Rightarrow>
                          (case stream of
                             Str s \<Rightarrow> to_excel export_df (take 25 s @ ''-'' @ take 5 gender) wb
                           | Num n \<Rightarrow> writer_raise wb IndexError
                           | Null \<Rightarrow> writer_raise wb IndexError))))"

fun export_genders :: "table \<Rightarrow> cell \<Rightarrow> string list \<Rightarrow> workbook \<Rightarrow> error + workbook" where
  "export_genders df stream [] wb = Inr wb"
| "export_genders df stream (gender # rest) wb =
     (case export_gender df stream gender wb of
        Inl e \<Rightarrow> Inl e
      | Inr wb' \<Rightarrow> export_genders df stream rest wb')"

fun export_streams :: "table \<Rightarrow> cell list \<Rightarrow> workbook \<Rightarrow> error + workbook" where
  "export_streams df [] wb = Inr wb"
| "export_streams df (stream # rest) wb =
     (case export_genders df stream [''M'', ''F''] wb of
        Inl e \<Rightarrow> Inl e
      | Inr wb' \<Rightarrow> export_streams df rest wb')"

text \<open>
  \<open>get_excel_download\<close>. Leaving the \<open>with\<close> block saves the workbook, which raises
  \<open>IndexError\<close> when no worksheet was written.
\<close>

definition get_excel_download :: "table \<Rightarrow> error + workbook" where
  "get_excel_download df =
     (if ''Stream'' \<notin> set (columns df) then writer_raise [] KeyError
      else (case py_sorted (unique (column ''Stream'' df)) of
              Inl e \<Rightarrow> writer_raise [] e
            | Inr streams \<Rightarrow>
                (case export_streams df streams [] of
                   Inl e \<Rightarrow> Inl e
                 | Inr wb \<Rightarrow> if List.null wb then Inl IndexError else Inr wb)))"

text \<open>
  Reading a workbook back, as the specification's round trip does (the repository has no
  reader of its own export): every worksheet gives the rows under its header, each cell
  under the name of its column, and the worksheets are put one after the other.
\<close>

definition read_sheet :: "sheet \<Rightarrow> row list" where
  "read_sheet s =
     map (\<lambda>cells col. case map_of (zip (header s) cells) col of Some v \<Rightarrow> v | None \<Rightarrow> Null)
       (body s)"

definition read_workbook :: "workbook \<Rightarrow> row list" where
  "read_workbook wb = concat (map read_sheet wb)"

text \<open>The pairs of enrollment identifier and house that a list of rows holds.\<close>

definition enrollment_houses :: "row list \<Rightarrow> (cell \<times> cell) list" where
  "enrollment_houses rs = map (\<lambda>r. (r ''Enrollment No'', r ''House'')) rs"

text \<open>
  The worksheet titles of two streams collide when the streams differ and agree on their
  first 25 characters.
\<close>

definition titles_collide :: "table \<Rightarrow> bool" where
  "titles_collide df \<longleftrightarrow>
     \<not> inj_on (\<lambda>c. case c of Str s \<Rightarrow> take 25 s | Num n \<Rightarrow> [] | Null \<Rightarrow> [])
         (set (column ''Stream'' df))"

subsection \<open>The parts of the export\<close>

text \<open>
  The rows \<open>df[(df["Stream"] == stream) & (df["Gender"] == gender)]\<close> of one combination of
  stream and gender.
\<close>

definition combo_rows :: "table \<Rightarrow> string \<Rightarrow> string \<Rightarrow> row list" where
  "combo_rows df s g =
     filter (\<lambda>r. cell_eq (r ''Stream'') (Str s) \<and> cell_eq (r ''Gender'') (Str g)) (rows df)"

text \<open>The worksheet title \<open>f"{stream[:25]}-{gender[:5]}"\<close>.\<close>

definition sheet_title :: "string \<Rightarrow> string \<Rightarrow> string" where
  "sheet_title s g = take 25 s @ ''-'' @ take 5 g"

text \<open>
  The pairs of enrollment identifier and house of the two combinations of one stream, and
  the two titles the loop over \<open>["M", "F"]\<close> uses for it.
\<close>

definition combo_pairs :: "table \<Rightarrow> string \<Rightarrow> (cell \<times> cell) multiset" where
  "combo_pairs df s =
     mset (enrollment_houses (combo_rows df s ''M'')) + mset (enrollment_houses (combo_rows df s ''F''))"

definition stream_titles :: "string \<Rightarrow> string set" where
  "stream_titles s = {sheet_title s ''M'', sheet_title s ''F''}"

section \<open>The access gate\<close>

text \<open>
  \<open>verify_password\<close>, on the text the password field holds: whether access is granted,
  and whether the error \<open>Incorrect password.\<close> is shown in the sidebar.
\<close>

definition verify_password :: "string \<Rightarrow> bool \<times> bool" where
  "verify_password password =
     (let correct_password = ''nfsu@123''
      in if password = correct_password then (True, False)
         else if password \<noteq> [] then (False, True)
         else (False, False))"

section \<open>The pages\<close>

text \<open>
  \<open>view_data_page\<close>, on the frame and on what the four sidebar selections hold; the result
  is the frame the page displays. A multiselect whose default is no option raises
  \<open>StreamlitAPIException\<close>.
\<close>

definition default_cols :: "string list" where
  "default_cols = [''Enrollment No'', ''Student Name'', ''Email-ID'']"

definition view_data_page ::
  "table \<Rightarrow> cell list \<Rightarrow> cell list \<Rightarrow> cell list \<Rightarrow> string list \<Rightarrow> error + table" where
  "view_data_page df selected_streams selected_sems selected_gender selected_cols =
     (if ''Stream'' \<notin> set (columns df) then Inl KeyError
      else (case py_sorted (unique (column ''Stream'' df)) of
        Inl e \<Rightarrow> Inl e
      | Inr streams \<Rightarrow>
      if ''Semester'' \<notin> set (columns df) then Inl KeyError
      else (case py_sorted (unique (column ''Semester'' df)) of
        Inl e \<Rightarrow> Inl e
      | Inr semesters \<Rightarrow>
      if \<not> set default_cols \<subseteq> set (columns df) then Inl StreamlitAPIException
      else
        let filtered = df;
            filtered = (if selected_streams \<noteq> []
                        then isin_rows ''Stream'' selected_streams filtered else filtered);
            filtered = (if selected_sems \<noteq> []
                        then isin_rows ''Semester'' selected_sems filtered else filtered)
        in if selected_gender \<noteq> [] \<and> ''Gender'' \<notin> set (columns df) then Inl KeyError
           else
             let filtered = (if selected_gender \<noteq> []
                             then isin_rows ''Gender'' selected_gender filtered else filtered)
             in select_columns selected_cols filtered)))"

text \<open>\<open>highlight_house\<close>: the style of a cell of the House column.\<close>

definition highlight_house :: "cell \<Rightarrow> string" where
  "highlight_house house =
     (let color = (case house of
                     Str h \<Rightarrow> (case map_of HOUSE_COLORS h of Some c \<Rightarrow> c | None \<Rightarrow> ''#FFFFFF'')
                   | Num n \<Rightarrow> ''#FFFFFF''
                   | Null \<Rightarrow> ''#FFFFFF'')
      in ''background-color: '' @ color @ '';'')"

text \<open>
  \<open>house_distribution_page\<close>: the workbook behind the download button, the rows it
  displays with the style of their House cell, and for each of the genders M and F that
  has rows the number of rows of every house.
\<close>

record house_page =
  page_download :: workbook
  page_rows :: "(cell list \<times> string) list"
  page_stats :: "(string \<times> (string \<times> nat) list) list"

definition house_stats :: "table \<Rightarrow> (string \<times> (string \<times> nat) list) list" where
  "house_stats assigned_df =
     concat (map (\<lambda>gender.
        let gender_df = filter (\<lambda>r. cell_eq (r ''Gender'') (Str gender)) (rows assigned_df)
        in if List.null gender_df then []
           else [(gender, map (\<lambda>h. (h, length (filter (\<lambda>r. r ''House'' = Str h) gender_df)))
                            HOUSE_COLORS_keys)])
       [''M'', ''F''])"

definition house_distribution_page ::
  "nat \<Rightarrow> cell list \<Rightarrow> cell list \<Rightarrow> cell list \<Rightarrow> world \<Rightarrow> error + house_page" where
  "house_distribution_page df selected_streams selected_sems selected_gender w =
     (let global_house_counts = [Str ''M'' \<mapsto> (\<lambda>h. 0), Str ''F'' \<mapsto> (\<lambda>h. 0)]
      in case assign_houses df global_house_counts w of
        Inl e \<Rightarrow> Inl e
      | Inr (assigned_ref, cnt', w') \<Rightarrow>
      let assigned_df = frames w' assigned_ref
      in case get_excel_download assigned_df of
        Inl e \<Rightarrow> Inl e
      | Inr data \<Rightarrow>
      (case py_sorted (unique (column ''Stream'' (frames w' df))) of
        Inl e \<Rightarrow> Inl e
      | Inr stream_options \<Rightarrow>
      (case py_sorted (unique (column ''Semester'' (frames w' df))) of
        Inl e \<Rightarrow> Inl e
      | Inr sem_options \<Rightarrow>
        let filtered_df = assigned_df;
            filtered_df = (if selected_streams \<noteq> []
                           then isin_rows ''Stream'' selected_streams filtered_df else filtered_df);
            filtered_df = (if selected_sems \<noteq> []
                           then isin_rows ''Semester'' selected_sems filtered_df else filtered_df);
            filtered_df = (if selected_gender \<noteq> []
                           then isin_rows ''Gender'' selected_gender filtered_df else filtered_df)
        in (case select_columns display_cols filtered_df of
              Inl e \<Rightarrow> Inl e
            | Inr projected \<Rightarrow>
                (case sort_values ''House'' projected of
                   Inl e \<Rightarrow> Inl e
                 | Inr sorted_df \<Rightarrow>
                     Inr \<lparr>page_download = data,
                          page_rows = map (\<lambda>r. (map r display_cols, highlight_house (r ''House'')))
                                    (rows sorted_df),
                          page_stats = house_stats assigned_df\<rparr>)))))"

text \<open>
  \<open>visualize_page\<close>, on the frame, the streams selected and the value of the gender
  selectbox: a warning that the House column is missing, a warning that no data is left,
  or the frame the three charts are drawn from.
\<close>

datatype visualize_result = House_Not_Found | No_Data | Charts table

definition visualize_page :: "table \<Rightarrow> cell list \<Rightarrow> string \<Rightarrow> error + visualize_result" where
  "visualize_page df selected_streams gender_filter =
     (if ''House'' \<notin> set (columns df) then Inr House_Not_Found
      else if ''Stream'' \<notin> set (columns df) then Inl KeyError
      else (case py_sorted (unique (column ''Stream'' df)) of
        Inl e \<Rightarrow> Inl e
      | Inr stream_options \<Rightarrow>
        if gender_filter \<noteq> ''All'' \<and> ''Gender'' \<notin> set (columns df) then Inl KeyError
        else
          let viz_df = df;
              viz_df = (if gender_filter \<noteq> ''All''
                        then viz_df\<lparr>rows := filter (\<lambda>r. cell_eq (r ''Gender'') (Str gender_filter))
                                                 (rows viz_df)\<rparr>
                        else viz_df);
              viz_df = (if selected_streams \<noteq> []
                        then isin_rows ''Stream'' selected_streams viz_df else viz_df)
          in if List.null (rows viz_df) then Inr No_Data else Inr (Charts viz_df)))"

section \<open>The loader\<close>

text \<open>
  Column names are strings of characters up to code point 255. \<open>str.strip\<close> and the
  pattern \<open>\s\<close> take these characters for white space.
\<close>

definition is_space :: "char \<Rightarrow> bool" where
  "is_space c \<longleftrightarrow>
     c \<in> set [CHR 0x09, CHR 0x0A, CHR 0x0B, CHR 0x0C, CHR 0x0D, CHR 0x1C, CHR 0x1D, CHR 0x1E,
              CHR 0x1F, CHR 0x20, CHR 0x85, CHR 0xA0]"

definition strip :: "string \<Rightarrow> string" where
  "strip s = rev (dropWhile is_space (rev (dropWhile is_space s)))"

text \<open>Replacing every maximal run of characters of a class by one space.\<close>

fun collapse_runs :: "(char \<Rightarrow> bool) \<Rightarrow> bool \<Rightarrow> string \<Rightarrow> string" where
  "collapse_runs P in_run [] = []"
| "collapse_runs P in_run (c # cs) =
     (if P c then (if in_run then collapse_runs P True cs else CHR 0x20 # collapse_runs P True cs)
      else c # collapse_runs P False cs)"

definition normalize_column :: "string \<Rightarrow> string" where
  "normalize_column name =
     (let s = strip name;
          s = map (\<lambda>c. if c = CHR 0xA0 then CHR 0x20 else c) s;
          s = collapse_runs (\<lambda>c. c \<in> set [CHR 0x0A, CHR 0x0D, CHR 0x09]) False s
      in collapse_runs is_space False s)"

definition rename_columns :: "(string \<Rightarrow> string) \<Rightarrow> table \<Rightarrow> table" where
  "rename_columns f t =
     \<lparr>columns = map f (columns t),
      rows = map (\<lambda>r col. case map_of (zip (map f (columns t)) (map r (columns t))) col of
                             Some v \<Rightarrow> v | None \<Rightarrow> Null) (rows t)\<rparr>"

definition endswith :: "string \<Rightarrow> string \<Rightarrow> bool" where
  "endswith s suffix \<longleftrightarrow> length suffix \<le> length s \<and> drop (length s - length suffix) s = suffix"

text \<open>\<open>os.path.splitext(filename)[0]\<close>: the name up to its last dot, leading dots apart.\<close>

definition splitext_root :: "string \<Rightarrow> string" where
  "splitext_root p =
     (let stem = rev (drop 1 (dropWhile (\<lambda>c. c \<noteq> CHR ''.'') (rev p)))
      in if CHR ''.'' \<in> set p \<and> list_ex (\<lambda>c. c \<noteq> CHR ''.'') stem then stem else p)"

text \<open>
  \<open>pd.concat([all_data, df], ignore_index=True)\<close>: the columns of the first frame, then
  the new ones of the second; cells of a column a frame lacks are missing. A frame whose
  columns are already the combined ones is taken as it is; any other frame is reindexed,
  which raises \<open>InvalidIndexError\<close> when two of its columns have one name. So the first
  file, joined to the empty frame, is never refused. (Rows give one cell to a name: of two
  columns of one name the rows of this model keep the first.)
\<close>

definition concat_frames :: "table \<Rightarrow> table \<Rightarrow> error + table" where
  "concat_frames all_data df =
     (let combined = columns all_data @ filter (\<lambda>c. c \<notin> set (columns all_data)) (columns df)
      in if (combined \<noteq> columns all_data \<and> \<not> distinct (columns all_data))
            \<or> (combined \<noteq> columns df \<and> \<not> distinct (columns df))
         then Inl InvalidIndexError
         else Inr \<lparr>columns = combined,
                   rows = map (\<lambda>r col. if col \<in> set (columns all_data) then r col else Null) (rows all_data)
                        @ map (\<lambda>r col. if col \<in> set (columns df) then r col else Null) (rows df)\<rparr>)"

text \<open>
  The loop of \<open>load_all_students_from_data_folder\<close> over the directory listing. A file is
  given by its name and by the frame \<open>pd.read_excel(file_path, header=2)\<close> reads from it.
\<close>

fun load_files :: "(string \<times> table) list \<Rightarrow> table \<Rightarrow> error + table" where
  "load_files [] all_data = Inr all_data"
| "load_files ((filename, sheet) # rest) all_data =
     (if endswith filename ''.xlsx''
      then
        let df = rename_columns normalize_column sheet;
            df = table_set_column ''Stream'' (Str (splitext_root filename)) df
        in (case concat_frames all_data df of
              Inl e \<Rightarrow> Inl e
            | Inr all_data' \<Rightarrow> load_files rest all_data')
      else load_files rest all_data)"

definition load_all_students_from_data_folder :: "(string \<times> table) list \<Rightarrow> error + table" where
  "load_all_students_from_data_folder files = load_files files \<lparr>columns = [], rows = []\<rparr>"

section \<open>The application\<close>

datatype menu_choice = Menu_House_Distribution | Menu_Visualize | Menu_View_Data

text \<open>
  What one run of the script meets: the data folder (\<open>None\<close> when it does not exist), the
  draws of the random generator, and what the widgets hold.
\<close>

record session =
  data_folder :: "(string \<times> table) list option"
  draws :: rng
  chosen_menu :: menu_choice
  entered_password :: string
  picked_streams :: "cell list"
  picked_sems :: "cell list"
  picked_gender :: "cell list"
  picked_cols :: "string list"
  picked_gender_filter :: string

datatype message = Folder_Not_Found | Missing_Required_Columns

text \<open>
  What the run leaves on the page: an error message of \<open>main\<close> (\<open>st.error\<close>, then
  \<open>return\<close>), an exception nothing catches, the access warning (with whether the sidebar
  shows the password error), or a page.
\<close>

datatype outcome =
    Error_Message message
  | Uncaught error
  | Access_Denied bool
  | House_Distribution_Page house_page
  | Visualize_Page visualize_result
  | View_Data_Page table

fun is_Error_Message :: "outcome \<Rightarrow> bool" where
  "is_Error_Message (Error_Message m) = True"
| "is_Error_Message out = False"

definition required_cols :: "string list" where
  "required_cols = [''Enrollment No'', ''Stream'', ''Student Name'', ''Gender'', ''Semester'']"

text \<open>The frame \<open>df\<close> of \<open>main\<close> is the first object of the store.\<close>

definition main :: "session \<Rightarrow> outcome" where
  "main s =
     (case data_folder s of
        None \<Rightarrow> Error_Message Folder_Not_Found
      | Some files \<Rightarrow>
          (case load_all_students_from_data_folder files of
             Inl e \<Rightarrow> Uncaught e
           | Inr loaded \<Rightarrow>
               if \<not> set required_cols \<subseteq> set (columns loaded)
               then Error_Message Missing_Required_Columns
               else
                 let df = 0;
                     w = \<lparr>frames = (\<lambda>a. loaded), next_ref = 1, gen = draws s\<rparr>
                 in (case chosen_menu s of
                       Menu_House_Distribution \<Rightarrow>
                         (case house_distribution_page df (picked_streams s) (picked_sems s)
                                 (picked_gender s) w of
                            Inl e \<Rightarrow> Uncaught e
                          | Inr page \<Rightarrow> House_Distribution_Page page)
                     | Menu_Visualize \<Rightarrow>
                         (let global_house_counts = [Str ''M'' \<mapsto> (\<lambda>h. 0), Str ''F'' \<mapsto> (\<lambda>h. 0)]
                          in case assign_houses df global_house_counts w of
                            Inl e \<Rightarrow> Uncaught e
                          | Inr (assigned_df, cnt', w') \<Rightarrow>
                              (case visualize_page (frames w' assigned_df) (picked_streams s)
                                      (picked_gender_filter s) of
                                 Inl e \<Rightarrow> Uncaught e
                               | Inr page \<Rightarrow> Visualize_Page page))
                     | Menu_View_Data \<Rightarrow>
                         (case verify_password (entered_password s) of
                            (granted, error_shown) \<Rightarrow>
                              if \<not> granted then Access_Denied error_shown
                              else (case view_data_page (frames w df) (picked_streams s)
                                           (picked_sems s) (picked_gender s) (picked_cols s) of
                                      Inl e \<Rightarrow> Uncaught e
                                    | Inr page \<Rightarrow> View_Data_Page page)))))"

section \<open>A concrete run\<close>

text \<open>
  One file \<open>Physics.xlsx\<close> of semester 1 with two men, one woman and one student whose
  gender cell is empty; the generator draws \<open>0, 1, 2, ...\<close>.
\<close>

definition example_row :: "string \<Rightarrow> string \<Rightarrow> cell \<Rightarrow> cell \<Rightarrow> row" where
  "example_row enrollment stream sem gender =
     (\<lambda>col. Null)(''Enrollment No'' := Str enrollment, ''Student Name'' := Str (''N'' @ enrollment),
        ''Stream'' := Str stream, ''Semester'' := sem, ''Gender'' := gender)"

definition example_table :: table where
  "example_table =
     \<lparr>columns = [''Enrollment No'', ''Student Name'', ''Gender'', ''Semester'', ''Stream''],
      rows = [example_row ''E1'' ''Physics'' (Num 1) (Str ''M''),
              example_row ''E2'' ''Physics'' (Num 1) (Str ''F''),
              example_row ''E3'' ''Physics'' (Num 1) (Str ''M''),
              example_row ''E4'' ''Physics'' (Num 1) Null]\<rparr>"

definition example_world :: world where
  "example_world = \<lparr>frames = (\<lambda>a. example_table), next_ref = 1, gen = (\<lambda>k. k)\<rparr>"

text \<open>The frame the run returns (the empty frame if it raised).\<close>

definition example_assigned :: table where
  "example_assigned =
     (case assign_houses 0 fresh_counts example_world of
        Inl e \<Rightarrow> \<lparr>columns = [], rows = []\<rparr>
      | Inr (a, cnt', w') \<Rightarrow> frames w' a)"

text \<open>The same frame with the column the raw view shows by default.\<close>

definition example_view_table :: table where
  "example_view_table = example_table\<lparr>columns := columns example_table @ [''Email-ID'']\<rparr>"

text \<open>
  A data folder with one spreadsheet, whose header row has untidy names, and one other
  file; the run opens the chart page with nothing filtered.
\<close>

definition example_sheet :: table where
  "example_sheet =
     \<lparr>columns = [''Enrollment No '', ''Student  Name'', '' Gender'', ''Semester'', ''Email-ID''],
      rows = [(\<lambda>col. Null)(''Enrollment No '' := Str ''E1'', ''Student  Name'' := Str ''A'',
                 '' Gender'' := Str ''M'', ''Semester'' := Num 1, ''Email-ID'' := Str ''a@x''),
              (\<lambda>col. Null)(''Enrollment No '' := Str ''E2'', ''Student  Name'' := Str ''B'',
                 '' Gender'' := Str ''F'', ''Semester'' := Num 1, ''Email-ID'' := Str ''b@x'')]\<rparr>"

definition example_session :: session where
  "example_session =
     \<lparr>data_folder = Some [(''Physics.xlsx'', example_sheet), (''notes.txt'', \<lparr>columns = [], rows = []\<rparr>)],
      draws = (\<lambda>k. k),
      chosen_menu = Menu_Visualize,
      entered_password = [],
      picked_streams = [],
      picked_sems = [],
      picked_gender = [],
      picked_cols = [''Enrollment No''],
      picked_gender_filter = ''All''\<rparr>"

text \<open>Counters that are not all equal: for the men, House A has 2, House C has 1.\<close>

definition example_counts :: counters where
  "example_counts =
     [Str ''M'' \<mapsto> (\<lambda>h. 0)(''House A'' := 2, ''House C'' := 1), Str ''F'' \<mapsto> (\<lambda>h. 0)]"

text \<open>
  Two files whose names agree on their first 25 characters, \<open>Bachelor of Technology in CS.xlsx\<close>
  and \<open>Bachelor of Technology in AI.xlsx\<close>, each with one man of semester 1.
\<close>

definition collide_table :: table where
  "collide_table =
     \<lparr>columns = [''Enrollment No'', ''Student Name'', ''Gender'', ''Semester'', ''Stream''],
      rows = [example_row ''E1'' ''Bachelor of Technology in CS'' (Num 1) (Str ''M''),
              example_row ''E2'' ''Bachelor of Technology in AI'' (Num 1) (Str ''M'')]\<rparr>"

definition collide_world :: world where
  "collide_world = \<lparr>frames = (\<lambda>a. collide_table), next_ref = 1, gen = (\<lambda>k. k)\<rparr>"

definition collide_assigned :: table where
  "collide_assigned =
     (case assign_houses 0 fresh_counts collide_world of
        Inl e \<Rightarrow> \<lparr>columns = [], rows = []\<rparr>
      | Inr (a, cnt', w') \<Rightarrow> frames w' a)"

section \<open>Properties of the house assignment\<close>

lemma shuffle_from_mset: "i < length x \<Longrightarrow> mset (fst (shuffle_from i x g)) = mset x"
proof (induction i arbitrary: x g)
  case 0
  then show ?case by simp
next
  case (Suc i)
  obtain j g' where r: "randbelow (Suc i + 1) g = (j, g')" by (cases "randbelow (Suc i + 1) g")
  then have j: "j < Suc (Suc i)" by (auto simp: randbelow_def)
  with Suc.prems have jl: "j < length x" by simp
  have "mset (x[Suc i := x ! j, j := x ! Suc i]) = mset x"
    using Suc.prems jl by (simp add: mset_swap)
  moreover have "i < length (x[Suc i := x ! j, j := x ! Suc i])" using Suc.prems by simp
  ultimately show ?case using Suc.IH[of "x[Suc i := x ! j, j := x ! Suc i]" g'] r by simp
qed

lemma shuffle_mset: "mset (fst (shuffle x g)) = mset x"
proof (cases x)
  case Nil
  then show ?thesis by (simp add: shuffle_def)
next
  case (Cons a list)
  then show ?thesis by (simp add: shuffle_def shuffle_from_mset)
qed

lemma keys_eq: "HOUSE_COLORS_keys = [''House A'', ''House B'', ''House C'', ''House D'']"
  by (simp add: HOUSE_COLORS_keys_def HOUSE_COLORS_def)

lemma house_order_mset: "mset (sort_key c HOUSE_COLORS_keys) = mset HOUSE_COLORS_keys"
  by simp

lemma house_order_length: "length (sort_key c HOUSE_COLORS_keys) = 4"
  by (simp add: keys_eq)

lemma house_cycle_nth:
  assumes "length ord = 4"
  shows "concat (replicate (Suc m) ord) ! (i mod 4) = ord ! (i mod 4)"
  using assms by (simp add: nth_append)

lemma assign_students_world:
  "snd (assign_students a cyc (enumerate n xs) (c, w)) =
     w\<lparr>frames := (frames w)(a := (frames w a)\<lparr>rows := assign_rows cyc n xs (rows (frames w a))\<rparr>)\<rparr>"
proof (induction xs arbitrary: n c w)
  case Nil
  then show ?case by simp
next
  case (Cons idx xs)
  show ?case
    by (simp add: Cons.IH Let_def at_set_def table_at_set_def fun_upd_def cong: if_cong)
qed

lemma assign_rows_length [simp]: "length (assign_rows cyc n xs rs) = length rs"
  by (induction xs arbitrary: n rs) auto

lemma assign_rows_other: "p \<notin> set xs \<Longrightarrow> assign_rows cyc n xs rs ! p = rs ! p"
  by (induction xs arbitrary: n rs) auto

lemma assign_rows_nth:
  "distinct xs \<Longrightarrow> \<forall>p \<in> set xs. p < length rs \<Longrightarrow> i < length xs \<Longrightarrow>
     assign_rows cyc n xs rs ! (xs ! i) = (rs ! (xs ! i))(''House'' := Str (cyc ! ((n + i) mod 4)))"
proof (induction xs arbitrary: n rs i)
  case Nil
  then show ?case by simp
next
  case (Cons idx xs)
  show ?case
  proof (cases i)
    case 0
    then show ?thesis using Cons.prems by (simp add: assign_rows_other)
  next
    case (Suc k)
    have "assign_rows cyc (Suc n) xs (rs[idx := (rs ! idx)(''House'' := Str (cyc ! (n mod 4)))]) ! (xs ! k)
        = ((rs[idx := (rs ! idx)(''House'' := Str (cyc ! (n mod 4)))]) ! (xs ! k))(''House'' := Str (cyc ! ((Suc n + k) mod 4)))"
      using Cons.prems Suc by (intro Cons.IH) auto
    moreover have "xs ! k \<noteq> idx" using Cons.prems Suc by auto
    ultimately show ?thesis using Suc by simp
  qed
qed

lemma assign_students_counts:
  "fst (assign_students a cyc (enumerate n xs) (c, w)) =
     (\<lambda>h. c h + int (length (filter (\<lambda>i. cyc ! (i mod 4) = h) [n..<n + length xs])))"
proof (induction xs arbitrary: n c w)
  case Nil
  then show ?case by simp
next
  case (Cons idx xs)
  have "[n..<n + length (idx # xs)] = n # [Suc n..<Suc n + length xs]"
    using upt_rec[of n "n + Suc (length xs)"] by simp
  then show ?case
    by (auto simp: Cons.IH Let_def fun_eq_iff)
qed

lemma count_mod4:
  "j < 4 \<Longrightarrow> length (filter (\<lambda>i. i mod 4 = j) [0..<n]) = n div 4 + (if j < n mod 4 then 1 else 0)"
proof (induction n)
  case 0
  then show ?case by simp
next
  case (Suc n)
  have m: "n mod 4 < 4" by simp
  show ?case using Suc m by (auto simp: mod_Suc div_Suc)
qed

lemma count_order:
  assumes "distinct ord" "length ord = 4" "j < 4"
  shows "length (filter (\<lambda>i. ord ! (i mod 4) = ord ! j) [0..<n])
           = n div 4 + (if j < n mod 4 then 1 else 0)"
proof -
  have "\<And>i. (ord ! (i mod 4) = ord ! j) = (i mod 4 = j)"
    using assms by (simp add: nth_eq_iff_index_eq)
  then show ?thesis using count_mod4[OF assms(3)] by simp
qed

lemma count_order_balanced:
  assumes "distinct ord" "length ord = 4" "h1 \<in> set ord" "h2 \<in> set ord"
  shows "length (filter (\<lambda>i. ord ! (i mod 4) = h1) [0..<n])
       \<le> length (filter (\<lambda>i. ord ! (i mod 4) = h2) [0..<n]) + 1"
proof -
  obtain j1 where j1: "j1 < 4" "h1 = ord ! j1" using assms by (metis in_set_conv_nth)
  obtain j2 where j2: "j2 < 4" "h2 = ord ! j2" using assms by (metis in_set_conv_nth)
  show ?thesis using count_order[OF assms(1,2)] j1 j2 by simp
qed

lemma assign_groups_frame:
  "assign_groups a gs (cnt, w) = Inr (cnt', w') \<Longrightarrow>
     (\<forall>b. b \<noteq> a \<longrightarrow> frames w' b = frames w b) \<and> next_ref w' = next_ref w
     \<and> columns (frames w' a) = columns (frames w a)
     \<and> length (rows (frames w' a)) = length (rows (frames w a))"
proof (induction gs arbitrary: cnt w)
  case Nil
  then show ?case by simp
next
  case (Cons g gs)
  obtain stream sem gender idxs where g: "g = ((stream, sem, gender), idxs)"
    by (metis prod.exhaust)
  obtain students g' where sh: "shuffle idxs (gen w) = (students, g')"
    by (cases "shuffle idxs (gen w)")
  from Cons.prems g sh obtain c where c: "cnt gender = Some c"
    by (cases "cnt gender") auto
  define cyc where "cyc = concat (replicate (length students div 4 + 1) (sort_key c HOUSE_COLORS_keys))"
  obtain c' w1 where st: "assign_students a cyc (enumerate 0 students) (c, w\<lparr>gen := g'\<rparr>) = (c', w1)"
    by (cases "assign_students a cyc (enumerate 0 students) (c, w\<lparr>gen := g'\<rparr>)")
  have w1: "w1 = w\<lparr>gen := g', frames := (frames w)(a := (frames w a)\<lparr>rows := assign_rows cyc 0 students (rows (frames w a))\<rparr>)\<rparr>"
    using assign_students_world[of a cyc 0 students c "w\<lparr>gen := g'\<rparr>"] st by simp
  have rest: "assign_groups a gs (cnt(gender \<mapsto> c'), w1) = Inr (cnt', w')"
    using Cons.prems g sh c st by (simp add: cyc_def Let_def)
  from Cons.IH[OF rest] show ?case by (simp add: w1)
qed

lemma assign_groups_rows:
  "assign_groups a gs (cnt, w) = Inr (cnt', w') \<Longrightarrow>
   distinct (concat (map snd gs)) \<Longrightarrow>
   \<forall>p \<in> set (concat (map snd gs)). p < length (rows (frames w a)) \<Longrightarrow>
     (\<forall>p. p \<notin> set (concat (map snd gs)) \<longrightarrow> rows (frames w' a) ! p = rows (frames w a) ! p)
     \<and> (\<forall>g \<in> set gs. group_assigned (rows (frames w a)) (rows (frames w' a)) (snd g))"
proof (induction gs arbitrary: cnt w)
  case Nil
  then show ?case by simp
next
  case (Cons g gs)
  obtain stream sem gender idxs where g: "g = ((stream, sem, gender), idxs)"
    by (metis prod.exhaust)
  obtain students g' where sh: "shuffle idxs (gen w) = (students, g')"
    by (cases "shuffle idxs (gen w)")
  from Cons.prems(1) g sh obtain c where c: "cnt gender = Some c"
    by (cases "cnt gender") auto
  define ord where "ord = sort_key c HOUSE_COLORS_keys"
  define cyc where "cyc = concat (replicate (length students div 4 + 1) ord)"
  define rs where "rs = rows (frames w a)"
  define r1 where "r1 = assign_rows cyc 0 students rs"
  obtain c' w1 where st: "assign_students a cyc (enumerate 0 students) (c, w\<lparr>gen := g'\<rparr>) = (c', w1)"
    by (cases "assign_students a cyc (enumerate 0 students) (c, w\<lparr>gen := g'\<rparr>)")
  have w1: "w1 = w\<lparr>gen := g', frames := (frames w)(a := (frames w a)\<lparr>rows := r1\<rparr>)\<rparr>"
    using assign_students_world[of a cyc 0 students c "w\<lparr>gen := g'\<rparr>"] st by (simp add: r1_def rs_def)
  have r1a: "rows (frames w1 a) = r1" by (simp add: w1)
  have rest: "assign_groups a gs (cnt(gender \<mapsto> c'), w1) = Inr (cnt', w')"
    using Cons.prems(1) g sh c st by (simp add: cyc_def ord_def Let_def)
  have ms: "mset students = mset idxs" using shuffle_mset[of idxs "gen w"] sh by simp
  then have set_st: "set students = set idxs" by (metis set_mset_mset)
  have dist_idxs: "distinct idxs" and dist_rest: "distinct (concat (map snd gs))"
    and disj: "set idxs \<inter> set (concat (map snd gs)) = {}"
    using Cons.prems(2) g by auto
  have dist_st: "distinct students" using ms dist_idxs by (metis mset_eq_imp_distinct_iff)
  have bound_idxs: "\<forall>p \<in> set idxs. p < length rs" using Cons.prems(3) g by (simp add: rs_def)
  have bound_rest: "\<forall>p \<in> set (concat (map snd gs)). p < length (rows (frames w1 a))"
    using Cons.prems(3) by (simp add: r1a r1_def rs_def)
  note IH = Cons.IH[OF rest dist_rest bound_rest, unfolded r1a]
  have other: "\<And>p. p \<notin> set idxs \<Longrightarrow> r1 ! p = rs ! p"
    by (simp add: r1_def assign_rows_other set_st)
  have A: "\<forall>p. p \<notin> set (concat (map snd (g # gs))) \<longrightarrow> rows (frames w' a) ! p = rs ! p"
    using IH other g by auto
  have ordlen: "length ord = 4" unfolding ord_def by (rule house_order_length)
  have first: "group_assigned rs (rows (frames w' a)) idxs"
    unfolding group_assigned_def
  proof (intro exI[of _ ord] exI[of _ students] conjI allI impI)
    show "mset ord = mset HOUSE_COLORS_keys" by (simp add: ord_def)
    show "mset students = mset idxs" by (rule ms)
    fix i assume i: "i < length students"
    then have mem: "students ! i \<in> set idxs" using set_st by (metis nth_mem)
    then have "students ! i \<notin> set (concat (map snd gs))" using disj by blast
    then have "rows (frames w' a) ! (students ! i) = r1 ! (students ! i)" using IH by blast
    also have "\<dots> = (rs ! (students ! i))(''House'' := Str (cyc ! ((0 + i) mod 4)))"
      unfolding r1_def using dist_st bound_idxs set_st i by (intro assign_rows_nth) auto
    also have "cyc ! ((0 + i) mod 4) = ord ! (i mod 4)"
      using house_cycle_nth[OF ordlen] by (simp add: cyc_def)
    finally show "rows (frames w' a) ! (students ! i) = (rs ! (students ! i))(''House'' := Str (ord ! (i mod 4)))" .
  qed
  have later: "group_assigned rs (rows (frames w' a)) (snd h)" if h: "h \<in> set gs" for h
  proof -
    from IH h have "group_assigned r1 (rows (frames w' a)) (snd h)" by blast
    then obtain ord' xs where o: "mset ord' = mset HOUSE_COLORS_keys" "mset xs = mset (snd h)"
      "\<forall>i < length xs. rows (frames w' a) ! (xs ! i) = (r1 ! (xs ! i))(''House'' := Str (ord' ! (i mod 4)))"
      unfolding group_assigned_def by blast
    have "set xs = set (snd h)" using o(2) by (metis set_mset_mset)
    then have "set xs \<subseteq> set (concat (map snd gs))" using h by auto
    then have "\<forall>i < length xs. xs ! i \<notin> set idxs" using disj by (metis disjoint_iff nth_mem subsetD)
    then have "\<forall>i < length xs. rows (frames w' a) ! (xs ! i) = (rs ! (xs ! i))(''House'' := Str (ord' ! (i mod 4)))"
      using o(3) other by simp
    then show ?thesis unfolding group_assigned_def using o(1,2) by blast
  qed
  show ?case using A first later g by (auto simp: rs_def)
qed

lemma group_members:
  "set (map fst (filter (\<lambda>(idx, r). f r = k) (filter (\<lambda>(idx, r). Q r) (enumerate 0 rs))))
     = {p. p < length rs \<and> Q (rs ! p) \<and> f (rs ! p) = k}"
  by (auto simp: in_set_enumerate_eq image_iff)

lemma group_distinct:
  "distinct (map fst (filter (\<lambda>(idx, r). f r = k) (filter (\<lambda>(idx, r). Q r) (enumerate 0 rs))))"
  by (simp add: distinct_map_filter)

lemma groups_distinct_concat:
  "distinct ks \<Longrightarrow>
   distinct (concat (map (\<lambda>k. map fst (filter (\<lambda>(idx, r). f r = k)
      (filter (\<lambda>(idx, r). Q r) (enumerate 0 rs)))) ks))"
proof (induction ks)
  case Nil
  then show ?case by simp
next
  case (Cons k ks)
  define G where "G = (\<lambda>k. map fst (filter (\<lambda>(idx, r). f r = k)
      (filter (\<lambda>(idx, r). Q r) (enumerate 0 rs))))"
  have G: "\<And>k. set (G k) = {p. p < length rs \<and> Q (rs ! p) \<and> f (rs ! p) = k}"
    unfolding G_def by (rule group_members)
  have "set (concat (map G ks)) = (\<Union>k \<in> set ks. set (G k))"
    by (simp only: set_concat set_map image_image)
  then have "set (G k) \<inter> set (concat (map G ks)) = {}"
    using Cons.prems unfolding G by auto
  moreover have "distinct (G k)" unfolding G_def by (rule group_distinct)
  moreover have "distinct (concat (map G ks))" using Cons unfolding G_def by simp
  ultimately have "distinct (concat (map G (k # ks)))" by simp
  then show ?case unfolding G_def .
qed

lemma groupby_Inr:
  assumes "groupby df = Inr gs"
  shows "gs = map (\<lambda>k. (k, map fst (filter (\<lambda>(idx, r). group_key r = k)
                 (filter (\<lambda>(idx, r). \<not> key_has_null (group_key r)) (enumerate 0 (rows df))))))
              (sort_key key_rank (remdups (map (\<lambda>(idx, r). group_key r)
                 (filter (\<lambda>(idx, r). \<not> key_has_null (group_key r)) (enumerate 0 (rows df))))))"
  using assms by (simp add: groupby_def Let_def split: if_splits)

lemma groupby_keys:
  assumes "groupby df = Inr gs"
  shows "set (map fst gs) = {k. \<not> key_has_null k \<and> (\<exists>p < length (rows df). group_key (rows df ! p) = k)}"
    and "distinct (map fst gs)"
proof -
  have m: "map fst gs = sort_key key_rank (remdups (map (\<lambda>(idx, r). group_key r)
                 (filter (\<lambda>(idx, r). \<not> key_has_null (group_key r)) (enumerate 0 (rows df)))))"
    unfolding groupby_Inr[OF assms] by (simp add: comp_def)
  show "distinct (map fst gs)" unfolding m by simp
  show "set (map fst gs) = {k. \<not> key_has_null k \<and> (\<exists>p < length (rows df). group_key (rows df ! p) = k)}"
    unfolding m by (auto simp: in_set_enumerate_eq image_iff) (metis key_has_null.simps)
qed

lemma groupby_members:
  assumes "groupby df = Inr gs" "(k, idxs) \<in> set gs"
  shows "set idxs = {p. p < length (rows df) \<and> group_key (rows df ! p) = k}"
    and "\<not> key_has_null k" and "distinct idxs"
proof -
  from assms have idxs: "idxs = map fst (filter (\<lambda>(idx, r). group_key r = k)
                 (filter (\<lambda>(idx, r). \<not> key_has_null (group_key r)) (enumerate 0 (rows df))))"
    unfolding groupby_Inr[OF assms(1)] by auto
  have "k \<in> set (map fst gs)" using assms(2) by force
  then show nn: "\<not> key_has_null k" using groupby_keys(1)[OF assms(1)] by simp
  show "set idxs = {p. p < length (rows df) \<and> group_key (rows df ! p) = k}"
    unfolding idxs group_members using nn by auto
  show "distinct idxs" unfolding idxs by (rule group_distinct)
qed

lemma groupby_distinct:
  assumes "groupby df = Inr gs"
  shows "distinct (concat (map snd gs))"
proof -
  have "distinct (sort_key key_rank (remdups (map (\<lambda>(idx, r). group_key r)
                 (filter (\<lambda>(idx, r). \<not> key_has_null (group_key r)) (enumerate 0 (rows df))))))"
    by simp
  from groups_distinct_concat[OF this, of group_key "\<lambda>r. \<not> key_has_null (group_key r)" "rows df"]
  show ?thesis unfolding groupby_Inr[OF assms] by (simp add: comp_def)
qed

lemma groupby_bound:
  assumes "groupby df = Inr gs"
  shows "\<forall>p \<in> set (concat (map snd gs)). p < length (rows df)"
proof
  fix p assume "p \<in> set (concat (map snd gs))"
  then obtain k idxs where "(k, idxs) \<in> set gs" "p \<in> set idxs" by auto
  then show "p < length (rows df)" using groupby_members(1)[OF assms] by blast
qed

lemma groupby_columns:
  "groupby df = Inr gs \<Longrightarrow> ''Stream'' \<in> set (columns df) \<and> ''Semester'' \<in> set (columns df) \<and> ''Gender'' \<in> set (columns df)"
  by (simp add: groupby_def split: if_splits)

lemma count_in_group:
  assumes "distinct xs"
    and "\<forall>i < length xs. (rs ! (xs ! i)) ''House'' = Str (ord ! (i mod 4))"
    and "{p. p < length rs \<and> K (rs ! p)} = set xs"
  shows "length (filter (\<lambda>r. K r \<and> r ''House'' = Str h) rs)
       = length (filter (\<lambda>i. ord ! (i mod 4) = h) [0..<length xs])"
proof -
  let ?A = "{i. i < length xs \<and> ord ! (i mod 4) = h}"
  have "length (filter (\<lambda>r. K r \<and> r ''House'' = Str h) rs)
      = card {p. p < length rs \<and> K (rs ! p) \<and> (rs ! p) ''House'' = Str h}"
    by (simp add: length_filter_conv_card)
  also have "{p. p < length rs \<and> K (rs ! p) \<and> (rs ! p) ''House'' = Str h}
      = {p \<in> set xs. (rs ! p) ''House'' = Str h}"
    using assms(3) by auto
  also have "\<dots> = (\<lambda>i. xs ! i) ` ?A"
  proof (intro set_eqI iffI)
    fix p assume "p \<in> {p \<in> set xs. (rs ! p) ''House'' = Str h}"
    then obtain i where i: "i < length xs" "p = xs ! i" and h: "(rs ! p) ''House'' = Str h"
      by (auto simp: in_set_conv_nth)
    then have "ord ! (i mod 4) = h" using assms(2) by auto
    then show "p \<in> (\<lambda>i. xs ! i) ` ?A" using i by blast
  next
    fix p assume "p \<in> (\<lambda>i. xs ! i) ` ?A"
    then show "p \<in> {p \<in> set xs. (rs ! p) ''House'' = Str h}" using assms(2) by auto
  qed
  also have "card ((\<lambda>i. xs ! i) ` ?A) = card ?A"
  proof (rule card_image)
    have "inj_on (\<lambda>i. xs ! i) {..<length xs}" using assms(1) by (simp add: inj_on_nth)
    then show "inj_on (\<lambda>i. xs ! i) ?A" by (rule inj_on_subset) auto
  qed
  also have "card ?A = length (filter (\<lambda>i. ord ! (i mod 4) = h) [0..<length xs])"
    unfolding length_filter_conv_card by (rule arg_cong[where f = card]) auto
  finally show ?thesis .
qed

lemma no_match_count: "\<forall>r \<in> set rs. \<not> P r \<Longrightarrow> length (filter P rs) = 0"
  by (induction rs) auto

lemma assign_houses_result:
  assumes "assign_houses df cnt w = Inr (a, cnt', w')" and "df < next_ref w"
  shows "\<exists>gs. groupby (frames w df) = Inr gs
     \<and> (\<forall>p. p \<notin> set (concat (map snd gs)) \<longrightarrow>
            rows (frames w' a) ! p = map (\<lambda>r. r(''House'' := Null)) (rows (frames w df)) ! p)
     \<and> (\<forall>g \<in> set gs. group_assigned (map (\<lambda>r. r(''House'' := Null)) (rows (frames w df)))
            (rows (frames w' a)) (snd g))"
    and "a = next_ref w"
    and "\<forall>b. b \<noteq> a \<longrightarrow> frames w' b = frames w b"
    and "next_ref w' = Suc (next_ref w)"
    and "columns (frames w' a) = (if ''House'' \<in> set (columns (frames w df)) then columns (frames w df)
           else columns (frames w df) @ [''House''])"
    and "length (rows (frames w' a)) = length (rows (frames w df))"
proof -
  define w1 where "w1 = w\<lparr>frames := (frames w)(next_ref w := frames w df), next_ref := Suc (next_ref w)\<rparr>"
  define w2 where "w2 = set_column (next_ref w) ''House'' Null w1"
  have dc: "df_copy df w = (next_ref w, w1)" by (simp add: df_copy_def w1_def)
  have ne: "df \<noteq> next_ref w" using assms(2) by simp
  have fr2: "frames w2 = (frames w)(next_ref w := table_set_column ''House'' Null (frames w df))"
    and nr2: "next_ref w2 = Suc (next_ref w)"
    by (simp_all add: w2_def w1_def set_column_def)
  have fdf: "frames w2 df = frames w df" using ne by (simp add: fr2)
  have unf: "assign_houses df cnt w =
     (case groupby (frames w df) of Inl e \<Rightarrow> Inl e
      | Inr groups \<Rightarrow>
          (case assign_groups (next_ref w) groups (cnt, w2) of Inl e \<Rightarrow> Inl e
           | Inr (cnt', w') \<Rightarrow> Inr (next_ref w, cnt', w')))"
    unfolding w2_def using fdf[unfolded w2_def] by (simp add: assign_houses_def dc Let_def)
  from assms(1) obtain gs where gs: "groupby (frames w df) = Inr gs"
    and ag: "assign_groups (next_ref w) gs (cnt, w2) = Inr (cnt', w')" and a: "a = next_ref w"
    unfolding unf by (auto split: sum.splits)
  show "a = next_ref w" by (rule a)
  have r2: "rows (frames w2 a) = map (\<lambda>r. r(''House'' := Null)) (rows (frames w df))"
    by (simp add: fr2 a table_set_column_def)
  note fr = assign_groups_frame[OF ag]
  show "\<forall>b. b \<noteq> a \<longrightarrow> frames w' b = frames w b" using fr by (simp add: a fr2)
  show "next_ref w' = Suc (next_ref w)" using fr nr2 by simp
  show "columns (frames w' a) = (if ''House'' \<in> set (columns (frames w df)) then columns (frames w df)
           else columns (frames w df) @ [''House''])"
    using fr by (simp add: a fr2 table_set_column_def)
  show "length (rows (frames w' a)) = length (rows (frames w df))"
    using fr r2 by (simp add: a)
  have "\<forall>p \<in> set (concat (map snd gs)). p < length (rows (frames w2 (next_ref w)))"
    using groupby_bound[OF gs] r2 by (simp add: a)
  from assign_groups_rows[OF ag groupby_distinct[OF gs] this]
  show "\<exists>gs. groupby (frames w df) = Inr gs
     \<and> (\<forall>p. p \<notin> set (concat (map snd gs)) \<longrightarrow>
            rows (frames w' a) ! p = map (\<lambda>r. r(''House'' := Null)) (rows (frames w df)) ! p)
     \<and> (\<forall>g \<in> set gs. group_assigned (map (\<lambda>r. r(''House'' := Null)) (rows (frames w df)))
            (rows (frames w' a)) (snd g))"
    using gs r2 a by auto
qed

lemma keys_distinct: "distinct HOUSE_COLORS_keys"
  by (simp add: keys_eq)

lemma group_assigned_nth:
  assumes "group_assigned rs rs' idxs" "p \<in> set idxs"
  shows "\<exists>h \<in> set HOUSE_COLORS_keys. rs' ! p = (rs ! p)(''House'' := Str h)"
proof -
  from assms(1) obtain ord xs where o: "mset ord = mset HOUSE_COLORS_keys" "mset xs = mset idxs"
    "\<forall>i < length xs. rs' ! (xs ! i) = (rs ! (xs ! i))(''House'' := Str (ord ! (i mod 4)))"
    unfolding group_assigned_def by blast
  have "set xs = set idxs" using o(2) by (metis set_mset_mset)
  with assms(2) have "p \<in> set xs" by simp
  then obtain i where i: "i < length xs" "p = xs ! i" by (metis in_set_conv_nth)
  have "length ord = length HOUSE_COLORS_keys" using o(1) by (rule mset_eq_length)
  then have "length ord = 4" by (simp add: keys_eq)
  then have "ord ! (i mod 4) \<in> set ord" by simp
  then have "ord ! (i mod 4) \<in> set HOUSE_COLORS_keys" using o(1) by (metis set_mset_mset)
  then show ?thesis using o(3) i by blast
qed

lemma assign_houses_rows:
  assumes "assign_houses df cnt w = Inr (a, cnt', w')" and "df < next_ref w"
    and "p < length (rows (frames w df))"
  shows "if key_has_null (group_key (rows (frames w df) ! p))
         then rows (frames w' a) ! p = (rows (frames w df) ! p)(''House'' := Null)
         else \<exists>h \<in> set HOUSE_COLORS_keys.
                rows (frames w' a) ! p = (rows (frames w df) ! p)(''House'' := Str h)"
proof -
  define rs where "rs = rows (frames w df)"
  define rs0 where "rs0 = map (\<lambda>r. r(''House'' := Null)) rs"
  define rs' where "rs' = rows (frames w' a)"
  from assign_houses_result(1)[OF assms(1,2)] obtain gs where g0: "groupby (frames w df) = Inr gs
     \<and> (\<forall>p. p \<notin> set (concat (map snd gs)) \<longrightarrow> rs' ! p = rs0 ! p)
     \<and> (\<forall>g \<in> set gs. group_assigned rs0 rs' (snd g))"
    unfolding rs0_def rs_def rs'_def by (rule exE)
  note gs = g0[THEN conjunct1] and other = g0[THEN conjunct2, THEN conjunct1]
    and grp = g0[THEN conjunct2, THEN conjunct2]
  have p: "p < length rs" using assms(3) by (simp add: rs_def)
  have rs0p: "rs0 ! p = (rs ! p)(''House'' := Null)" using p by (simp add: rs0_def)
  have goal: "if key_has_null (group_key (rs ! p))
         then rs' ! p = (rs ! p)(''House'' := Null)
         else \<exists>h \<in> set HOUSE_COLORS_keys. rs' ! p = (rs ! p)(''House'' := Str h)"
  proof (cases "key_has_null (group_key (rs ! p))")
    case True
    have "p \<notin> set (concat (map snd gs))"
    proof
      assume "p \<in> set (concat (map snd gs))"
      then obtain g0 where "g0 \<in> set gs" "p \<in> set (snd g0)" by auto
      then obtain k idxs where g: "(k, idxs) \<in> set gs" "p \<in> set idxs" by (metis prod.collapse)
      have "set idxs = {p. p < length (rows (frames w df)) \<and> group_key (rows (frames w df) ! p) = k}"
        by (rule groupby_members(1)[OF gs g(1)])
      then have "group_key (rs ! p) = k" using g(2) by (simp add: rs_def)
      moreover have "\<not> key_has_null k" by (rule groupby_members(2)[OF gs g(1)])
      ultimately show False using True by simp
    qed
    then have "rs' ! p = rs0 ! p" using other by simp
    then show ?thesis using True rs0p by simp
  next
    case False
    have "set (map fst gs) = {k. \<not> key_has_null k \<and> (\<exists>p < length (rows (frames w df)). group_key (rows (frames w df) ! p) = k)}"
      by (rule groupby_keys(1)[OF gs])
    then have "group_key (rs ! p) \<in> set (map fst gs)" using False p unfolding rs_def by blast
    then obtain idxs where g: "(group_key (rs ! p), idxs) \<in> set gs" by auto
    have "set idxs = {q. q < length (rows (frames w df)) \<and> group_key (rows (frames w df) ! q) = group_key (rs ! p)}"
      by (rule groupby_members(1)[OF gs g])
    then have mem: "p \<in> set idxs" using p by (simp add: rs_def)
    have ga: "group_assigned rs0 rs' idxs" using bspec[OF grp g] by simp
    from group_assigned_nth[OF ga mem]
    obtain h where h: "h \<in> set HOUSE_COLORS_keys" "rs' ! p = (rs0 ! p)(''House'' := Str h)"
      by (rule bexE)
    have "rs' ! p = (rs ! p)(''House'' := Str h)" using h(2) rs0p by simp
    then show ?thesis using False h(1) by auto
  qed
  then show ?thesis unfolding rs_def rs'_def .
qed

lemma assign_houses_group_key:
  assumes "assign_houses df cnt w = Inr (a, cnt', w')" and "df < next_ref w"
    and "p < length (rows (frames w df))"
  shows "group_key (rows (frames w' a) ! p) = group_key (rows (frames w df) ! p)"
  using assign_houses_rows[OF assms] by (auto simp: group_key_def split: if_splits)


lemma example_run_returns: "\<not> isl (assign_houses 0 fresh_counts example_world)"
  by code_simp

lemma example_world_ref: "0 < next_ref example_world"
  by (simp add: example_world_def)

section \<open>Balance within a group\<close>

text \<open>
  Claim C1. After one call of \<open>assign_houses\<close> that returns, in every
  (source, semester, gender) group the number of rows given one house exceeds the number
  given any other house by at most 1. The counters the call starts from are arbitrary:
  they change the order of the cycle, never this balance.
\<close>

theorem assign_houses_balanced:
  assumes "assign_houses df cnt w = Inr (a, cnt', w')" and "df < next_ref w"
    and "h1 \<in> set HOUSE_COLORS_keys" and "h2 \<in> set HOUSE_COLORS_keys"
  shows "group_house_count (frames w' a) k h1 \<le> group_house_count (frames w' a) k h2 + 1"
proof -
  define rs where "rs = rows (frames w df)"
  define rs0 where "rs0 = map (\<lambda>r. r(''House'' := Null)) rs"
  define rs' where "rs' = rows (frames w' a)"
  from assign_houses_result(1)[OF assms(1,2)] obtain gs where g0: "groupby (frames w df) = Inr gs
     \<and> (\<forall>p. p \<notin> set (concat (map snd gs)) \<longrightarrow> rs' ! p = rs0 ! p)
     \<and> (\<forall>g \<in> set gs. group_assigned rs0 rs' (snd g))"
    unfolding rs0_def rs_def rs'_def by (rule exE)
  note gs = g0[THEN conjunct1] and grp = g0[THEN conjunct2, THEN conjunct2]
  have len: "length rs' = length rs"
    using assign_houses_result(6)[OF assms(1,2)] by (simp add: rs_def rs'_def)
  have key: "\<And>p. p < length rs \<Longrightarrow> group_key (rs' ! p) = group_key (rs ! p)"
    using assign_houses_group_key[OF assms(1,2)] by (simp add: rs_def rs'_def)
  have keys: "set (map fst gs) = {k. \<not> key_has_null k \<and> (\<exists>p < length rs. group_key (rs ! p) = k)}"
    unfolding rs_def by (rule groupby_keys(1)[OF gs])
  show ?thesis
  proof (cases "k \<in> set (map fst gs)")
    case True
    then obtain idxs where g: "(k, idxs) \<in> set gs" by auto
    have idxs: "set idxs = {p. p < length rs \<and> group_key (rs ! p) = k}"
      unfolding rs_def by (rule groupby_members(1)[OF gs g])
    have "group_assigned rs0 rs' idxs" using bspec[OF grp g] by simp
    then obtain ord xs where o: "mset ord = mset HOUSE_COLORS_keys" "mset xs = mset idxs"
      "\<forall>i < length xs. rs' ! (xs ! i) = (rs0 ! (xs ! i))(''House'' := Str (ord ! (i mod 4)))"
      unfolding group_assigned_def by blast
    have sx: "set xs = set idxs" using o(2) by (metis set_mset_mset)
    have dx: "distinct xs" using o(2) groupby_members(3)[OF gs g] by (metis mset_eq_imp_distinct_iff)
    have house: "\<forall>i < length xs. (rs' ! (xs ! i)) ''House'' = Str (ord ! (i mod 4))"
      using o(3) by simp
    have "{p. p < length rs' \<and> group_key (rs' ! p) = k} = set xs"
      unfolding sx idxs len using key by auto
    from count_in_group[OF dx house, of "\<lambda>r. group_key r = k", OF this]
    have cnt: "\<And>h. group_house_count (frames w' a) k h
               = length (filter (\<lambda>i. ord ! (i mod 4) = h) [0..<length xs])"
      by (simp add: group_house_count_def rs'_def)
    have "distinct ord" using o(1) keys_distinct by (metis mset_eq_imp_distinct_iff)
    moreover have "length ord = 4" using mset_eq_length[OF o(1)] by (simp add: keys_eq)
    moreover have "set ord = set HOUSE_COLORS_keys" using o(1) by (metis set_mset_mset)
    ultimately show ?thesis using count_order_balanced[of ord h1 h2 "length xs"] assms(3,4) cnt
      by simp
  next
    case False
    have "\<forall>r \<in> set rs'. \<not> (group_key r = k \<and> r ''House'' = Str h1)"
    proof (intro ballI notI)
      fix r assume r: "r \<in> set rs'" and c: "group_key r = k \<and> r ''House'' = Str h1"
      then obtain p where p: "p < length rs" "r = rs' ! p" using len by (metis in_set_conv_nth)
      then have kp: "group_key (rs ! p) = k" using key c by simp
      then have "key_has_null (group_key (rs ! p))" using False keys p(1) by blast
      then have "rs' ! p = (rs ! p)(''House'' := Null)"
        using assign_houses_rows[OF assms(1,2), of p] p(1) by (simp add: rs_def rs'_def)
      then show False using c p(2) by simp
    qed
    then have "group_house_count (frames w' a) k h1 = 0"
      unfolding group_house_count_def rs'_def by (rule no_match_count)
    then show ?thesis by simp
  qed
qed

theorem assign_houses_balanced_witness:
  "\<exists>a cnt' w'. assign_houses 0 fresh_counts example_world = Inr (a, cnt', w')
     \<and> 0 < next_ref example_world
     \<and> ''House A'' \<in> set HOUSE_COLORS_keys \<and> ''House D'' \<in> set HOUSE_COLORS_keys
     \<and> group_house_count (frames w' a) (Str ''Physics'', Num 1, Str ''M'') ''House A''
          \<le> group_house_count (frames w' a) (Str ''Physics'', Num 1, Str ''M'') ''House D'' + 1"
proof -
  obtain a cnt' w' where r: "assign_houses 0 fresh_counts example_world = Inr (a, cnt', w')"
    using example_run_returns by (cases "assign_houses 0 fresh_counts example_world") auto
  have hA: "''House A'' \<in> set HOUSE_COLORS_keys" and hD: "''House D'' \<in> set HOUSE_COLORS_keys"
    by (simp_all add: keys_eq)
  from assign_houses_balanced[OF r example_world_ref hA hD] r example_world_ref hA hD
  show ?thesis by blast
qed

section \<open>Every grouped row gets a house\<close>

text \<open>
  Claim C2, as the specification states it: after \<open>assign_houses\<close> returns, every row has
  one of the four house labels. It fails on a frame with a row whose gender cell is empty:
  \<open>groupby\<close> leaves the row out of every group, and its house stays \<open>None\<close>. The fourth row
  of the concrete run is such a row.
\<close>

theorem assign_houses_labels_counterexample:
  "\<not> isl (assign_houses 0 fresh_counts example_world)
   \<and> 3 < length (rows example_assigned)
   \<and> (rows example_assigned ! 3) ''House'' = Null
   \<and> (rows example_assigned ! 3) ''House'' \<notin> Str ` set HOUSE_COLORS_keys"
  unfolding example_assigned_def by code_simp

text \<open>
  Claim C2, amended. After \<open>assign_houses\<close> returns, every row whose Stream, Semester and
  Gender cells are all present has one of the four house labels, and every row with a
  missing value in one of these three columns has the house \<open>None\<close>.
\<close>

theorem assign_houses_labels:
  assumes "assign_houses df cnt w = Inr (a, cnt', w')" and "df < next_ref w"
    and "p < length (rows (frames w' a))"
  shows "if key_has_null (group_key (rows (frames w' a) ! p))
         then (rows (frames w' a) ! p) ''House'' = Null
         else (rows (frames w' a) ! p) ''House'' \<in> Str ` set HOUSE_COLORS_keys"
proof -
  have p: "p < length (rows (frames w df))"
    using assms(3) assign_houses_result(6)[OF assms(1,2)] by simp
  have k: "group_key (rows (frames w' a) ! p) = group_key (rows (frames w df) ! p)"
    by (rule assign_houses_group_key[OF assms(1,2) p])
  show ?thesis
    using assign_houses_rows[OF assms(1,2) p] unfolding k
    by (auto split: if_splits)
qed

theorem assign_houses_labels_witness:
  "\<exists>a cnt' w'. assign_houses 0 fresh_counts example_world = Inr (a, cnt', w')
     \<and> 0 < next_ref example_world \<and> 0 < length (rows (frames w' a))
     \<and> \<not> key_has_null (group_key (rows (frames w' a) ! 0))
     \<and> (rows (frames w' a) ! 0) ''House'' \<in> Str ` set HOUSE_COLORS_keys"
proof -
  obtain a cnt' w' where r: "assign_houses 0 fresh_counts example_world = Inr (a, cnt', w')"
    using example_run_returns by (cases "assign_houses 0 fresh_counts example_world") auto
  have len: "length (rows (frames w' a)) = length (rows (frames example_world 0))"
    by (rule assign_houses_result(6)[OF r example_world_ref])
  then have p: "0 < length (rows (frames w' a))"
    by (simp add: example_world_def example_table_def)
  have "group_key (rows (frames w' a) ! 0) = group_key (rows (frames example_world 0) ! 0)"
    using assign_houses_group_key[OF r example_world_ref, of 0] p len by simp
  then have k: "\<not> key_has_null (group_key (rows (frames w' a) ! 0))"
    by (simp add: example_world_def example_table_def example_row_def group_key_def)
  from assign_houses_labels[OF r example_world_ref p] k
  have "(rows (frames w' a) ! 0) ''House'' \<in> Str ` set HOUSE_COLORS_keys" by simp
  with r example_world_ref p k show ?thesis by blast
qed

section \<open>The input frame is left alone\<close>

text \<open>
  Claim C9. \<open>assign_houses\<close> works on a copy: the frame it returns is a new object, the
  input frame and every other frame that existed before the call are unchanged, and the
  returned frame has the rows of the input with every cell outside the House column as in
  the input. Of the two arguments only the counters change (they are returned updated).
\<close>

theorem assign_houses_copy:
  assumes "assign_houses df cnt w = Inr (a, cnt', w')" and "df < next_ref w"
  shows "frames w' df = frames w df
     \<and> (\<forall>b. b < next_ref w \<longrightarrow> frames w' b = frames w b)
     \<and> a = next_ref w \<and> next_ref w' = Suc (next_ref w)
     \<and> columns (frames w' a) =
          (if ''House'' \<in> set (columns (frames w df)) then columns (frames w df)
           else columns (frames w df) @ [''House''])
     \<and> length (rows (frames w' a)) = length (rows (frames w df))
     \<and> (\<forall>p col. p < length (rows (frames w df)) \<longrightarrow> col \<noteq> ''House'' \<longrightarrow>
            (rows (frames w' a) ! p) col = (rows (frames w df) ! p) col)"
proof -
  note r = assign_houses_result[OF assms]
  have a: "a = next_ref w" by (rule r(2))
  have old: "\<forall>b. b < next_ref w \<longrightarrow> frames w' b = frames w b"
    using r(3) a by simp
  have cells: "(rows (frames w' a) ! p) col = (rows (frames w df) ! p) col"
    if "p < length (rows (frames w df))" "col \<noteq> ''House''" for p col
    using assign_houses_rows[OF assms that(1)] that(2) by (auto split: if_splits)
  show ?thesis
    using old assms(2) a r(4) r(5) r(6) cells by simp
qed

theorem assign_houses_copy_witness:
  "\<exists>a cnt' w'. assign_houses 0 fresh_counts example_world = Inr (a, cnt', w')
     \<and> 0 < next_ref example_world
     \<and> frames w' 0 = example_table \<and> a = 1
     \<and> (rows (frames w' a) ! 0) ''Enrollment No'' = Str ''E1''"
proof -
  obtain a cnt' w' where r: "assign_houses 0 fresh_counts example_world = Inr (a, cnt', w')"
    using example_run_returns by (cases "assign_houses 0 fresh_counts example_world") auto
  note c = assign_houses_copy[OF r example_world_ref]
  have 1: "frames w' 0 = example_table" using c by (simp add: example_world_def)
  have 2: "a = 1" using c by (simp add: example_world_def)
  have "0 < length (rows (frames example_world 0))"
    by (simp add: example_world_def example_table_def)
  moreover from c have "\<And>p col. p < length (rows (frames example_world 0)) \<Longrightarrow> col \<noteq> ''House''
      \<Longrightarrow> (rows (frames w' a) ! p) col = (rows (frames example_world 0) ! p) col"
    by blast
  ultimately have "(rows (frames w' a) ! 0) ''Enrollment No'' = (rows (frames example_world 0) ! 0) ''Enrollment No''"
    by simp
  then have 3: "(rows (frames w' a) ! 0) ''Enrollment No'' = Str ''E1''"
    by (simp add: example_world_def example_table_def example_row_def)
  from r example_world_ref 1 2 3 show ?thesis by blast
qed

section \<open>The order of the houses within a group\<close>

lemma palette_positions:
  "palette_position ''House A'' = 0" "palette_position ''House B'' = 1"
  "palette_position ''House C'' = 2" "palette_position ''House D'' = 3"
  by (simp_all add: palette_position_def keys_eq)

lemma house_order_sorted: "sorted_wrt (visits_before c) (sort_key c HOUSE_COLORS_keys)"
proof -
  define a where "a = c ''House A''"
  define b where "b = c ''House B''"
  define d where "d = c ''House C''"
  define e where "e = c ''House D''"
  show ?thesis
    unfolding keys_eq
    by (simp add: visits_before_def palette_positions a_def[symmetric] b_def[symmetric]
        d_def[symmetric] e_def[symmetric]) linarith
qed


text \<open>
  One pass of the loop over the groups, from any counters and any world: what the code does
  with the group at the head of the list.
\<close>

lemma assign_groups_step:
  assumes "cnt gender = Some c" and "distinct group_index"
    and "\<forall>p \<in> set group_index. p < length (rows (frames w a))"
    and "shuffle group_index (gen w) = (students, g')"
    and "house_order = sort_key c HOUSE_COLORS_keys"
    and "house_cycle = concat (replicate (length students div 4 + 1) house_order)"
    and "assign_students a house_cycle (enumerate 0 students) (c, w\<lparr>gen := g'\<rparr>) = (c', w')"
  shows "assign_groups a (((stream, sem, gender), group_index) # gs) (cnt, w)
           = assign_groups a gs (cnt(gender \<mapsto> c'), w')
     \<and> mset students = mset group_index
     \<and> mset house_order = mset HOUSE_COLORS_keys
     \<and> sorted_wrt (visits_before c) house_order
     \<and> (\<forall>i < length students. rows (frames w' a) ! (students ! i)
            = (rows (frames w a) ! (students ! i))(''House'' := Str (house_order ! (i mod 4))))
     \<and> (\<forall>m \<le> length students.
            fst (assign_students a house_cycle (enumerate 0 (take m students)) (c, w\<lparr>gen := g'\<rparr>))
            = (\<lambda>h. c h + int (length (filter (\<lambda>i. house_order ! (i mod 4) = h) [0..<m]))))
     \<and> c' = (\<lambda>h. c h + int (length (filter (\<lambda>i. house_order ! (i mod 4) = h) [0..<length students])))"
proof -
  have step: "assign_groups a (((stream, sem, gender), group_index) # gs) (cnt, w)
           = assign_groups a gs (cnt(gender \<mapsto> c'), w')"
    using assms(1,4,5,6,7) by (simp add: Let_def)
  have ms: "mset students = mset group_index"
    using shuffle_mset[of group_index "gen w"] assms(4) by simp
  then have set_st: "set students = set group_index" by (metis set_mset_mset)
  have dist: "distinct students" using ms assms(2) by (metis mset_eq_imp_distinct_iff)
  have ordlen: "length house_order = 4" unfolding assms(5) by (rule house_order_length)
  have cyc: "\<And>i. house_cycle ! (i mod 4) = house_order ! (i mod 4)"
    unfolding assms(6) using house_cycle_nth[OF ordlen] by simp
  have w': "w' = w\<lparr>gen := g', frames := (frames w)(a := (frames w a)\<lparr>rows :=
                assign_rows house_cycle 0 students (rows (frames w a))\<rparr>)\<rparr>"
    using assign_students_world[of a house_cycle 0 students c "w\<lparr>gen := g'\<rparr>"] assms(7) by simp
  have rws: "\<forall>i < length students. rows (frames w' a) ! (students ! i)
            = (rows (frames w a) ! (students ! i))(''House'' := Str (house_order ! (i mod 4)))"
  proof (intro allI impI)
    fix i assume i: "i < length students"
    have "assign_rows house_cycle 0 students (rows (frames w a)) ! (students ! i)
        = (rows (frames w a) ! (students ! i))(''House'' := Str (house_cycle ! ((0 + i) mod 4)))"
      using dist assms(3) set_st i by (intro assign_rows_nth) auto
    then show "rows (frames w' a) ! (students ! i)
            = (rows (frames w a) ! (students ! i))(''House'' := Str (house_order ! (i mod 4)))"
      by (simp add: w' cyc)
  qed
  have tally: "fst (assign_students a house_cycle (enumerate 0 xs) (c, v))
            = (\<lambda>h. c h + int (length (filter (\<lambda>i. house_order ! (i mod 4) = h) [0..<length xs])))"
    for xs v
    using assign_students_counts[of a house_cycle 0 xs c v] by (simp add: cyc)
  have pre: "\<forall>m \<le> length students.
            fst (assign_students a house_cycle (enumerate 0 (take m students)) (c, w\<lparr>gen := g'\<rparr>))
            = (\<lambda>h. c h + int (length (filter (\<lambda>i. house_order ! (i mod 4) = h) [0..<m])))"
    using tally by (simp add: min_def)
  have fin: "c' = (\<lambda>h. c h + int (length (filter (\<lambda>i. house_order ! (i mod 4) = h) [0..<length students])))"
    using tally[of students "w\<lparr>gen := g'\<rparr>"] assms(7) by simp
  have srt: "sorted_wrt (visits_before c) house_order" unfolding assms(5) by (rule house_order_sorted)
  have pm: "mset house_order = mset HOUSE_COLORS_keys" unfolding assms(5) by simp
  show ?thesis using step ms pm srt rws pre fin by blast
qed

lemma assign_groups_append:
  "assign_groups a (gs1 @ gs2) st =
     (case assign_groups a gs1 st of Inl e \<Rightarrow> Inl e | Inr st' \<Rightarrow> assign_groups a gs2 st')"
proof (induction gs1 arbitrary: st)
  case Nil
  then show ?case by (cases st) simp
next
  case (Cons g gs1)
  obtain stream sem gender idxs where g: "g = ((stream, sem, gender), idxs)"
    by (metis prod.exhaust)
  obtain cnt w where st: "st = (cnt, w)" by (cases st)
  show ?case
    by (simp add: g st Cons.IH Let_def split: prod.split option.split)
qed

lemma assign_houses_loop:
  assumes "assign_houses df cnt w = Inr (a, cnt', w')" and "df < next_ref w"
    and "groupby (frames w df) = Inr gs"
  shows "a = next_ref w \<and> assign_groups a gs (cnt, loop_start df w) = Inr (cnt', w')
     \<and> frames (loop_start df w) a = table_set_column ''House'' Null (frames w df)"
proof -
  define w1 where "w1 = w\<lparr>frames := (frames w)(next_ref w := frames w df), next_ref := Suc (next_ref w)\<rparr>"
  define w2 where "w2 = set_column (next_ref w) ''House'' Null w1"
  have dc: "df_copy df w = (next_ref w, w1)" by (simp add: df_copy_def w1_def)
  have ls: "loop_start df w = w2" by (simp add: loop_start_def dc w2_def)
  have ne: "df \<noteq> next_ref w" using assms(2) by simp
  have fr: "frames (loop_start df w) = (frames w)(next_ref w := table_set_column ''House'' Null (frames w df))"
    by (simp add: ls w2_def w1_def set_column_def)
  have fdf: "frames w2 df = frames w df" using ne fr by (simp add: ls)
  have unf: "assign_houses df cnt w =
     (case groupby (frames w df) of Inl e \<Rightarrow> Inl e
      | Inr groups \<Rightarrow>
          (case assign_groups (next_ref w) groups (cnt, w2) of Inl e \<Rightarrow> Inl e
           | Inr (cnt', w') \<Rightarrow> Inr (next_ref w, cnt', w')))"
    unfolding w2_def using fdf[unfolded w2_def] by (simp add: assign_houses_def dc Let_def)
  from assms(1) have "a = next_ref w" and "assign_groups (next_ref w) gs (cnt, loop_start df w) = Inr (cnt', w')"
    unfolding unf assms(3) ls by (auto split: sum.splits)
  then show ?thesis by (simp add: fr)
qed

text \<open>
  Claim C4. Let \<open>assign_houses\<close> return, and take any group of \<open>groupby\<close>, the \<open>n\<close>-th say.
  The loop reaches it in the state the first \<open>n\<close> groups leave. The house order of the
  group is the four labels sorted ascending by the counter of the group's gender in that
  state, ties in the order of the palette (House A, B, C, D). The rows of the group are
  shuffled, and in the frame \<open>assign_houses\<close> returns row \<open>i\<close> of the shuffled rows is the
  input row with the house at position \<open>i mod 4\<close> of the order. Each assignment adds one
  to the gender's counter of the house assigned: after the first \<open>m\<close> rows the counter of a
  house has grown by the number of those rows that got it, and after the group the
  counters of the other genders are as they were.
\<close>

theorem assign_houses_visits_houses:
  assumes "assign_houses df cnt w = Inr (a, cnt', w')" and "df < next_ref w"
    and "groupby (frames w df) = Inr gs" and "n < length gs"
    and "gs ! n = ((stream, sem, gender), group_index)"
  shows "\<exists>cnt_n w_n c students house_order c' w_n'.
        assign_groups a (take n gs) (cnt, loop_start df w) = Inr (cnt_n, w_n)
      \<and> cnt_n gender = Some c
      \<and> set group_index = {p. p < length (rows (frames w df))
                              \<and> group_key (rows (frames w df) ! p) = (stream, sem, gender)}
      \<and> students = fst (shuffle group_index (gen w_n))
      \<and> mset students = mset group_index
      \<and> house_order = sort_key c HOUSE_COLORS_keys
      \<and> mset house_order = mset HOUSE_COLORS_keys
      \<and> sorted_wrt (visits_before c) house_order
      \<and> (\<forall>i < length students. rows (frames w' a) ! (students ! i)
             = (rows (frames w df) ! (students ! i))(''House'' := Str (house_order ! (i mod 4))))
      \<and> (\<forall>m \<le> length students.
             fst (assign_students a (concat (replicate (length students div 4 + 1) house_order))
                    (enumerate 0 (take m students))
                    (c, w_n\<lparr>gen := snd (shuffle group_index (gen w_n))\<rparr>))
             = (\<lambda>h. c h + int (length (filter (\<lambda>i. house_order ! (i mod 4) = h) [0..<m]))))
      \<and> c' = (\<lambda>h. c h + int (length (filter (\<lambda>i. house_order ! (i mod 4) = h) [0..<length students])))
      \<and> assign_groups a (take (Suc n) gs) (cnt, loop_start df w) = Inr (cnt_n(gender \<mapsto> c'), w_n')
      \<and> assign_groups a gs (cnt, loop_start df w) = Inr (cnt', w')"
proof -
  define start where "start = loop_start df w"
  define g where "g = ((stream, sem, gender), group_index)"
  define pre where "pre = take n gs"
  define post where "post = drop (Suc n) gs"
  define rs where "rs = rows (frames w df)"
  define rs0 where "rs0 = map (\<lambda>r. r(''House'' := Null)) rs"
  note lp = assign_houses_loop[OF assms(1,2,3), folded start_def]
  have whole: "assign_groups a gs (cnt, start) = Inr (cnt', w')"
    by (rule lp[THEN conjunct2, THEN conjunct1])
  have "frames start a = table_set_column ''House'' Null (frames w df)"
    by (rule lp[THEN conjunct2, THEN conjunct2])
  then have rows_start: "rows (frames start a) = rs0"
    by (simp add: table_set_column_def rs0_def rs_def)
  have split: "gs = pre @ g # post"
    unfolding pre_def post_def g_def using id_take_nth_drop[OF assms(4)] assms(5) by simp
  have mem: "(((stream, sem, gender), group_index)) \<in> set gs"
    using assms(4,5) by (metis nth_mem)
  have gi_set: "set group_index = {p. p < length rs \<and> group_key (rs ! p) = (stream, sem, gender)}"
    unfolding rs_def by (rule groupby_members(1)[OF assms(3) mem])
  have gi_dist: "distinct group_index" by (rule groupby_members(3)[OF assms(3) mem])
  have dist: "distinct (concat (map snd pre) @ group_index @ concat (map snd post))"
    using groupby_distinct[OF assms(3)] by (simp add: split g_def)
  have d_pre: "distinct (concat (map snd pre))" and d_post: "distinct (concat (map snd post))"
    and dj_pre: "set group_index \<inter> set (concat (map snd pre)) = {}"
    and dj_post: "set group_index \<inter> set (concat (map snd post)) = {}"
    using dist by auto
  have bound: "\<forall>p \<in> set (concat (map snd gs)). p < length rs"
    unfolding rs_def by (rule groupby_bound[OF assms(3)])
  have b_pre: "\<forall>p \<in> set (concat (map snd pre)). p < length rs"
    and b_post: "\<forall>p \<in> set (concat (map snd post)). p < length rs"
    and b_gi: "\<forall>p \<in> set group_index. p < length rs"
    using bound by (auto simp: split g_def)
  \<comment> \<open>the state when the group is reached\<close>
  from whole obtain cnt_n w_n where pre_run: "assign_groups a pre (cnt, start) = Inr (cnt_n, w_n)"
    and rest_run: "assign_groups a (g # post) (cnt_n, w_n) = Inr (cnt', w')"
    unfolding split assign_groups_append by (auto split: sum.splits)
  have len_start: "length (rows (frames start a)) = length rs" by (simp add: rows_start rs0_def)
  have len_n: "length (rows (frames w_n a)) = length rs"
    using assign_groups_frame[OF pre_run] len_start by simp
  have rows_n: "\<And>p. p \<in> set group_index \<Longrightarrow> rows (frames w_n a) ! p = rs0 ! p"
  proof -
    fix p assume p: "p \<in> set group_index"
    have "\<forall>p \<in> set (concat (map snd pre)). p < length (rows (frames start a))"
      using b_pre len_start by simp
    note r = assign_groups_rows[OF pre_run d_pre this, THEN conjunct1, rule_format]
    have "p \<notin> set (concat (map snd pre))" using p dj_pre by blast
    from r[OF this] show "rows (frames w_n a) ! p = rs0 ! p" by (simp add: rows_start)
  qed
  \<comment> \<open>the step for the group\<close>
  obtain students g' where sh: "shuffle group_index (gen w_n) = (students, g')"
    by (cases "shuffle group_index (gen w_n)")
  from rest_run sh obtain c where c: "cnt_n gender = Some c"
    unfolding g_def by (cases "cnt_n gender") auto
  define house_order where "house_order = sort_key c HOUSE_COLORS_keys"
  define house_cycle where "house_cycle = concat (replicate (length students div 4 + 1) house_order)"
  obtain c' w_n' where st: "assign_students a house_cycle (enumerate 0 students) (c, w_n\<lparr>gen := g'\<rparr>) = (c', w_n')"
    by (cases "assign_students a house_cycle (enumerate 0 students) (c, w_n\<lparr>gen := g'\<rparr>)")
  have b_n: "\<forall>p \<in> set group_index. p < length (rows (frames w_n a))" using b_gi len_n by simp
  note step = assign_groups_step[where cnt = cnt_n and gender = gender and c = c
      and group_index = group_index and w = w_n and a = a and stream = stream and sem = sem,
      OF c gi_dist b_n sh house_order_def house_cycle_def st]
  have step_eq: "\<And>rest. assign_groups a (g # rest) (cnt_n, w_n) = assign_groups a rest (cnt_n(gender \<mapsto> c'), w_n')"
    unfolding g_def using step by blast
  have ms: "mset students = mset group_index" using step by blast
  have set_st: "set students = set group_index" using ms by (metis set_mset_mset)
  have len_st: "length students = length group_index" using ms by (metis mset_eq_length)
  have pm: "mset house_order = mset HOUSE_COLORS_keys" using step by blast
  have srt: "sorted_wrt (visits_before c) house_order" using step by blast
  have rows_step: "\<forall>i < length students. rows (frames w_n' a) ! (students ! i)
            = (rows (frames w_n a) ! (students ! i))(''House'' := Str (house_order ! (i mod 4)))"
    using step by blast
  have pre_tally: "\<forall>m \<le> length students.
            fst (assign_students a house_cycle (enumerate 0 (take m students)) (c, w_n\<lparr>gen := g'\<rparr>))
            = (\<lambda>h. c h + int (length (filter (\<lambda>i. house_order ! (i mod 4) = h) [0..<m])))"
    using step by blast
  have fin: "c' = (\<lambda>h. c h + int (length (filter (\<lambda>i. house_order ! (i mod 4) = h) [0..<length students])))"
    using step by blast
  \<comment> \<open>the rest of the loop leaves the rows of the group alone\<close>
  have post_run: "assign_groups a post (cnt_n(gender \<mapsto> c'), w_n') = Inr (cnt', w')"
    using rest_run step_eq[of post] by simp
  have len_n': "length (rows (frames w_n' a)) = length rs"
  proof -
    have "assign_groups a [g] (cnt_n, w_n) = Inr (cnt_n(gender \<mapsto> c'), w_n')"
      using step_eq[of "[]"] by simp
    from assign_groups_frame[OF this] show ?thesis using len_n by simp
  qed
  have rows_final: "\<And>p. p \<in> set group_index \<Longrightarrow> rows (frames w' a) ! p = rows (frames w_n' a) ! p"
  proof -
    fix p assume p: "p \<in> set group_index"
    have "\<forall>p \<in> set (concat (map snd post)). p < length (rows (frames w_n' a))"
      using b_post len_n' by simp
    note r = assign_groups_rows[OF post_run d_post this, THEN conjunct1, rule_format]
    have "p \<notin> set (concat (map snd post))" using p dj_post by blast
    from r[OF this] show "rows (frames w' a) ! p = rows (frames w_n' a) ! p" .
  qed
  have rows_all: "\<forall>i < length students. rows (frames w' a) ! (students ! i)
             = (rs ! (students ! i))(''House'' := Str (house_order ! (i mod 4)))"
  proof (intro allI impI)
    fix i assume i: "i < length students"
    then have p: "students ! i \<in> set group_index" using set_st by (metis nth_mem)
    then have pl: "students ! i < length rs" using b_gi by simp
    have "rows (frames w' a) ! (students ! i) = rows (frames w_n' a) ! (students ! i)"
      by (rule rows_final[OF p])
    also have "\<dots> = (rows (frames w_n a) ! (students ! i))(''House'' := Str (house_order ! (i mod 4)))"
      using rows_step i by simp
    also have "rows (frames w_n a) ! (students ! i) = rs0 ! (students ! i)" by (rule rows_n[OF p])
    also have "rs0 ! (students ! i) = (rs ! (students ! i))(''House'' := Null)"
      using pl by (simp add: rs0_def)
    finally have "rows (frames w' a) ! (students ! i)
             = ((rs ! (students ! i))(''House'' := Null))(''House'' := Str (house_order ! (i mod 4)))" .
    then show "rows (frames w' a) ! (students ! i)
             = (rs ! (students ! i))(''House'' := Str (house_order ! (i mod 4)))"
      by (simp only: fun_upd_upd)
  qed
  have suc_run: "assign_groups a (take (Suc n) gs) (cnt, start) = Inr (cnt_n(gender \<mapsto> c'), w_n')"
  proof -
    have "take (Suc n) gs = pre @ [g]"
      unfolding pre_def g_def using take_Suc_conv_app_nth[OF assms(4)] assms(5) by simp
    then show ?thesis using pre_run step_eq[of "[]"] by (simp add: assign_groups_append)
  qed
  have g'_eq: "g' = snd (shuffle group_index (gen w_n))" and students_eq: "students = fst (shuffle group_index (gen w_n))"
    using sh by simp_all
  show ?thesis
  proof (intro exI conjI)
    show "assign_groups a (take n gs) (cnt, loop_start df w) = Inr (cnt_n, w_n)"
      using pre_run by (simp add: pre_def start_def)
    show "cnt_n gender = Some c" by (rule c)
    show "set group_index = {p. p < length (rows (frames w df))
                              \<and> group_key (rows (frames w df) ! p) = (stream, sem, gender)}"
      using gi_set by (simp add: rs_def)
    show "students = fst (shuffle group_index (gen w_n))" by (rule students_eq)
    show "mset students = mset group_index" by (rule ms)
    show "house_order = sort_key c HOUSE_COLORS_keys" by (rule house_order_def)
    show "mset house_order = mset HOUSE_COLORS_keys" by (rule pm)
    show "sorted_wrt (visits_before c) house_order" by (rule srt)
    show "\<forall>i < length students. rows (frames w' a) ! (students ! i)
             = (rows (frames w df) ! (students ! i))(''House'' := Str (house_order ! (i mod 4)))"
      using rows_all by (simp add: rs_def)
    show "\<forall>m \<le> length students.
             fst (assign_students a (concat (replicate (length students div 4 + 1) house_order))
                    (enumerate 0 (take m students))
                    (c, w_n\<lparr>gen := snd (shuffle group_index (gen w_n))\<rparr>))
             = (\<lambda>h. c h + int (length (filter (\<lambda>i. house_order ! (i mod 4) = h) [0..<m])))"
      using pre_tally unfolding house_cycle_def g'_eq .
    show "c' = (\<lambda>h. c h + int (length (filter (\<lambda>i. house_order ! (i mod 4) = h) [0..<length students])))"
      by (rule fin)
    show "assign_groups a (take (Suc n) gs) (cnt, loop_start df w) = Inr (cnt_n(gender \<mapsto> c'), w_n')"
      using suc_run by (simp add: start_def)
    show "assign_groups a gs (cnt, loop_start df w) = Inr (cnt', w')"
      using whole by (simp add: start_def)
  qed
qed

lemma example_counts_run: "\<not> isl (assign_houses 0 example_counts example_world)"
  by code_simp

lemma example_groups:
  "groupby (frames example_world 0)
     = Inr [((Str ''Physics'', Num 1, Str ''F''), [1]), ((Str ''Physics'', Num 1, Str ''M''), [0, 2])]"
  by code_simp

lemma example_reached:
  "case assign_groups 1 [((Str ''Physics'', Num 1, Str ''F''), [1])]
          (example_counts, loop_start 0 example_world) of
     Inl e \<Rightarrow> False
   | Inr (cn, wn) \<Rightarrow>
       (case cn (Str ''M'') of
          None \<Rightarrow> False
        | Some c \<Rightarrow> map c HOUSE_COLORS_keys = [2, 0, 1, 0])
       \<and> fst (shuffle [0, 2 :: nat] (gen wn)) = [2, 0]"
  by code_simp

theorem assign_houses_visits_houses_witness:
  "\<exists>a cnt' w' c'.
       assign_houses 0 example_counts example_world = Inr (a, cnt', w')
     \<and> groupby (frames example_world 0)
         = Inr [((Str ''Physics'', Num 1, Str ''F''), [1]), ((Str ''Physics'', Num 1, Str ''M''), [0, 2])]
     \<and> rows (frames w' a) ! 2 = (rows (frames example_world 0) ! 2)(''House'' := Str ''House B'')
     \<and> rows (frames w' a) ! 0 = (rows (frames example_world 0) ! 0)(''House'' := Str ''House D'')
     \<and> cnt' (Str ''M'') = Some c'
     \<and> c' ''House A'' = 2 \<and> c' ''House B'' = 1 \<and> c' ''House C'' = 1 \<and> c' ''House D'' = 1"
proof -
  let ?gs = "[((Str ''Physics'', Num 1, Str ''F''), [1 :: nat]), ((Str ''Physics'', Num 1, Str ''M''), [0, 2])]"
  obtain a cnt' w' where r: "assign_houses 0 example_counts example_world = Inr (a, cnt', w')"
    using example_counts_run by (cases "assign_houses 0 example_counts example_world") auto
  have a: "a = 1" using assign_houses_result(2)[OF r example_world_ref] by (simp add: example_world_def)
  have n: "1 < length ?gs" by simp
  have gn: "?gs ! 1 = ((Str ''Physics'', Num 1, Str ''M''), [0, 2])" by simp
  from assign_houses_visits_houses[OF r example_world_ref example_groups n gn]
  obtain cnt_n w_n c students house_order c' w_n' where
        pre: "assign_groups a (take 1 ?gs) (example_counts, loop_start 0 example_world) = Inr (cnt_n, w_n)"
    and c: "cnt_n (Str ''M'') = Some c"
    and st: "students = fst (shuffle [0, 2] (gen w_n))"
    and ho: "house_order = sort_key c HOUSE_COLORS_keys"
    and rws: "\<forall>i < length students. rows (frames w' a) ! (students ! i)
             = (rows (frames example_world 0) ! (students ! i))(''House'' := Str (house_order ! (i mod 4)))"
    and fin: "c' = (\<lambda>h. c h + int (length (filter (\<lambda>i. house_order ! (i mod 4) = h) [0..<length students])))"
    and suc: "assign_groups a (take (Suc 1) ?gs) (example_counts, loop_start 0 example_world) = Inr (cnt_n(Str ''M'' \<mapsto> c'), w_n')"
    and whole: "assign_groups a ?gs (example_counts, loop_start 0 example_world) = Inr (cnt', w')"
    by blast
  have pre1: "assign_groups 1 [((Str ''Physics'', Num 1, Str ''F''), [1])]
          (example_counts, loop_start 0 example_world) = Inr (cnt_n, w_n)"
    using pre by (simp add: a)
  from example_reached have cv: "map c HOUSE_COLORS_keys = [2, 0, 1, 0]"
    and sv: "students = [2, 0]"
    unfolding pre1 using c st by simp_all
  have cA: "c ''House A'' = 2" and cB: "c ''House B'' = 0" and cC: "c ''House C'' = 1" and cD: "c ''House D'' = 0"
    using cv by (simp_all add: keys_eq)
  have order: "house_order = [''House B'', ''House D'', ''House C'', ''House A'']"
    unfolding ho keys_eq by (simp add: cA cB cC cD)
  have r2: "rows (frames w' a) ! 2 = (rows (frames example_world 0) ! 2)(''House'' := Str ''House B'')"
    using rws[rule_format, of 0] by (simp add: sv order)
  have r0: "rows (frames w' a) ! 0 = (rows (frames example_world 0) ! 0)(''House'' := Str ''House D'')"
    using rws[rule_format, of 1] by (simp add: sv order)
  have up: "[0..<2] = [0, Suc 0]" by (simp add: upt_rec)
  have c'A: "c' ''House A'' = 2" and c'B: "c' ''House B'' = 1" and c'C: "c' ''House C'' = 1"
    and c'D: "c' ''House D'' = 1"
    unfolding fin by (simp_all add: sv order up cA cB cC cD)
  have "take (Suc 1) ?gs = ?gs" by simp
  then have "Inr (cnt_n(Str ''M'' \<mapsto> c'), w_n') = (Inr (cnt', w') :: error + counters \<times> world)"
    using suc whole by simp
  then have "cnt' = cnt_n(Str ''M'' \<mapsto> c')" by simp
  then have cm: "cnt' (Str ''M'') = Some c'" by simp
  show ?thesis
  proof (intro exI conjI)
    show "assign_houses 0 example_counts example_world = Inr (a, cnt', w')" by (rule r)
    show "groupby (frames example_world 0) = Inr ?gs" by (rule example_groups)
    show "rows (frames w' a) ! 2 = (rows (frames example_world 0) ! 2)(''House'' := Str ''House B'')"
      by (rule r2)
    show "rows (frames w' a) ! 0 = (rows (frames example_world 0) ! 0)(''House'' := Str ''House D'')"
      by (rule r0)
    show "cnt' (Str ''M'') = Some c'" by (rule cm)
    show "c' ''House A'' = 2" by (rule c'A)
    show "c' ''House B'' = 1" by (rule c'B)
    show "c' ''House C'' = 1" by (rule c'C)
    show "c' ''House D'' = 1" by (rule c'D)
  qed
qed

section \<open>The access gate\<close>

text \<open>
  Claim C6. For every entered string, access is granted exactly when the string equals the
  reference password; the sidebar error is shown exactly when the string is neither the
  password nor empty; so the empty string is denied with no error shown.
\<close>

theorem verify_password_gate:
  "verify_password password
     = (password = ''nfsu@123'', password \<noteq> ''nfsu@123'' \<and> password \<noteq> [])"
  by (simp add: verify_password_def)

theorem verify_password_gate_witness:
  "verify_password ''nfsu@123'' = (True, False)
   \<and> verify_password ''nfsu@1234'' = (False, True)
   \<and> verify_password [] = (False, False)"
  using verify_password_gate[of "''nfsu@123''"] verify_password_gate[of "''nfsu@1234''"]
    verify_password_gate[of "[]"]
  by simp

section \<open>The filters of the raw view\<close>

lemma isin_rows_rows: "rows (isin_rows col vs t) = filter (\<lambda>r. r col \<in> set vs) (rows t)"
  by (simp add: isin_rows_def)

lemma isin_rows_columns: "columns (isin_rows col vs t) = columns t"
  by (simp add: isin_rows_def)

text \<open>
  Claim C7. When the raw-view page displays a frame, its rows are, in the order of the
  loaded frame, exactly the rows that pass each of the three filters, where an empty
  selection of streams, semesters or genders lets every row pass on that dimension and a
  non-empty one lets pass the rows whose value lies in the selection; the page shows of
  each such row the selected columns.
\<close>

theorem view_data_page_filters:
  assumes "view_data_page df selected_streams selected_sems selected_gender selected_cols = Inr displayed"
  shows "columns displayed = selected_cols
     \<and> rows displayed =
         map (\<lambda>r col. if col \<in> set selected_cols then r col else Null)
           (filter (\<lambda>r. (selected_streams = [] \<or> r ''Stream'' \<in> set selected_streams)
                      \<and> (selected_sems = [] \<or> r ''Semester'' \<in> set selected_sems)
                      \<and> (selected_gender = [] \<or> r ''Gender'' \<in> set selected_gender))
              (rows df))"
proof -
  define f1 where "f1 = (if selected_streams \<noteq> [] then isin_rows ''Stream'' selected_streams df else df)"
  define f2 where "f2 = (if selected_sems \<noteq> [] then isin_rows ''Semester'' selected_sems f1 else f1)"
  define f3 where "f3 = (if selected_gender \<noteq> [] then isin_rows ''Gender'' selected_gender f2 else f2)"
  have unf: "view_data_page df selected_streams selected_sems selected_gender selected_cols =
     (if ''Stream'' \<notin> set (columns df) then Inl KeyError
      else (case py_sorted (unique (column ''Stream'' df)) of
        Inl e \<Rightarrow> Inl e
      | Inr streams \<Rightarrow>
      if ''Semester'' \<notin> set (columns df) then Inl KeyError
      else (case py_sorted (unique (column ''Semester'' df)) of
        Inl e \<Rightarrow> Inl e
      | Inr semesters \<Rightarrow>
      if \<not> set default_cols \<subseteq> set (columns df) then Inl StreamlitAPIException
      else if selected_gender \<noteq> [] \<and> ''Gender'' \<notin> set (columns df) then Inl KeyError
           else select_columns selected_cols f3)))"
    unfolding view_data_page_def f1_def f2_def f3_def Let_def by (rule refl)
  have sel: "select_columns selected_cols f3 = Inr displayed"
    using assms unfolding unf by (simp split: if_splits sum.splits)
  have r1: "rows f1 = filter (\<lambda>r. selected_streams = [] \<or> r ''Stream'' \<in> set selected_streams) (rows df)"
    by (simp add: f1_def isin_rows_rows)
  have r2: "rows f2 = filter (\<lambda>r. selected_sems = [] \<or> r ''Semester'' \<in> set selected_sems) (rows f1)"
    by (simp add: f2_def isin_rows_rows)
  have r3: "rows f3 = filter (\<lambda>r. selected_gender = [] \<or> r ''Gender'' \<in> set selected_gender) (rows f2)"
    by (simp add: f3_def isin_rows_rows)
  have r: "rows f3 = filter (\<lambda>r. (selected_streams = [] \<or> r ''Stream'' \<in> set selected_streams)
                      \<and> (selected_sems = [] \<or> r ''Semester'' \<in> set selected_sems)
                      \<and> (selected_gender = [] \<or> r ''Gender'' \<in> set selected_gender)) (rows df)"
    unfolding r3 r2 r1 by simp
  from sel have "displayed = \<lparr>columns = selected_cols,
        rows = map (\<lambda>r col. if col \<in> set selected_cols then r col else Null) (rows f3)\<rparr>"
    by (simp add: select_columns_def split: if_splits)
  then show ?thesis by (simp add: r)
qed

lemma example_view_returns:
  "\<not> isl (view_data_page example_view_table [] [Num 1] [Str ''F''] [''Enrollment No''])"
  by code_simp

theorem view_data_page_filters_witness:
  "\<exists>displayed. view_data_page example_view_table [] [Num 1] [Str ''F''] [''Enrollment No''] = Inr displayed
     \<and> columns displayed = [''Enrollment No'']
     \<and> map (\<lambda>r. r ''Enrollment No'') (rows displayed) = [Str ''E2'']"
proof -
  obtain displayed where
    r: "view_data_page example_view_table [] [Num 1] [Str ''F''] [''Enrollment No''] = Inr displayed"
    using example_view_returns
    by (cases "view_data_page example_view_table [] [Num 1] [Str ''F''] [''Enrollment No'']") auto
  define P :: "row \<Rightarrow> bool" where
    "P = (\<lambda>r. (([] :: cell list) = [] \<or> r ''Stream'' \<in> set [])
            \<and> ([Num 1] = [] \<or> r ''Semester'' \<in> set [Num 1])
            \<and> ([Str ''F''] = [] \<or> r ''Gender'' \<in> set [Str ''F'']))"
  note t = view_data_page_filters[OF r, folded P_def]
  have c: "columns displayed = [''Enrollment No'']" using t by (rule conjunct1)
  have rs: "rows displayed = map (\<lambda>r col. if col \<in> set [''Enrollment No''] then r col else Null)
              (filter P (rows example_view_table))"
    using t by (rule conjunct2)
  have e: "map (\<lambda>r. r ''Enrollment No'') (filter P (rows example_view_table)) = [Str ''E2'']"
    unfolding P_def by code_simp
  have "map (\<lambda>r. r ''Enrollment No'') (rows displayed)
      = map (\<lambda>r. r ''Enrollment No'') (filter P (rows example_view_table))"
    unfolding rs by (simp add: o_def)
  then have m: "map (\<lambda>r. r ''Enrollment No'') (rows displayed) = [Str ''E2'']" by (simp only: e)
  show ?thesis
  proof (intro exI conjI)
    show "view_data_page example_view_table [] [Num 1] [Str ''F''] [''Enrollment No''] = Inr displayed"
      by (rule r)
    show "columns displayed = [''Enrollment No'']" by (rule c)
    show "map (\<lambda>r. r ''Enrollment No'') (rows displayed) = [Str ''E2'']" by (rule m)
  qed
qed

section \<open>The two error messages of the application\<close>

lemma main_folder_missing: "data_folder s = None \<Longrightarrow> main s = Error_Message Folder_Not_Found"
  by (simp add: main_def)

lemma main_load_raises:
  "data_folder s = Some files \<Longrightarrow> load_all_students_from_data_folder files = Inl e \<Longrightarrow>
     main s = Uncaught e"
  by (simp add: main_def)

lemma main_columns_missing:
  "data_folder s = Some files \<Longrightarrow> load_all_students_from_data_folder files = Inr loaded \<Longrightarrow>
   \<not> set required_cols \<subseteq> set (columns loaded) \<Longrightarrow>
     main s = Error_Message Missing_Required_Columns"
  by (simp add: main_def)

lemma main_page:
  "data_folder s = Some files \<Longrightarrow> load_all_students_from_data_folder files = Inr loaded \<Longrightarrow>
   set required_cols \<subseteq> set (columns loaded) \<Longrightarrow> \<not> is_Error_Message (main s)"
  by (simp add: main_def Let_def split: menu_choice.split sum.split prod.split)

text \<open>
  Claim C5. \<open>main\<close> ends with an error message of its own exactly when the data folder
  does not exist (the folder message) or the loaded frame lacks one of the columns
  Enrollment No, Stream, Student Name, Gender, Semester (the columns message). The run
  then has that message for its whole outcome: no page is rendered. An exception nothing
  catches and the denied access are other outcomes.
\<close>

theorem main_error_messages:
  "(main s = Error_Message Folder_Not_Found \<longleftrightarrow> data_folder s = None)
   \<and> (main s = Error_Message Missing_Required_Columns \<longleftrightarrow>
        (\<exists>files loaded. data_folder s = Some files
           \<and> load_all_students_from_data_folder files = Inr loaded
           \<and> \<not> set required_cols \<subseteq> set (columns loaded)))
   \<and> (is_Error_Message (main s) \<longleftrightarrow>
        data_folder s = None
        \<or> (\<exists>files loaded. data_folder s = Some files
           \<and> load_all_students_from_data_folder files = Inr loaded
           \<and> \<not> set required_cols \<subseteq> set (columns loaded)))"
proof (cases "data_folder s")
  case None
  then show ?thesis using main_folder_missing[OF None] by simp
next
  case (Some files)
  show ?thesis
  proof (cases "load_all_students_from_data_folder files")
    case (Inl e)
    then show ?thesis using main_load_raises[OF Some Inl] Some by simp
  next
    case (Inr loaded)
    show ?thesis
    proof (cases "set required_cols \<subseteq> set (columns loaded)")
      case True
      from main_page[OF Some Inr True] have "\<not> is_Error_Message (main s)" .
      moreover from this have "main s \<noteq> Error_Message Folder_Not_Found"
        and "main s \<noteq> Error_Message Missing_Required_Columns" by auto
      ultimately show ?thesis using Some Inr True by simp
    next
      case False
      then show ?thesis using main_columns_missing[OF Some Inr False] Some Inr by simp
    qed
  qed
qed

lemma example_load:
  "case load_all_students_from_data_folder [(''Physics.xlsx'', example_sheet), (''notes.txt'', \<lparr>columns = [], rows = []\<rparr>)] of
     Inl e \<Rightarrow> False
   | Inr loaded \<Rightarrow> set required_cols \<subseteq> set (columns loaded)"
  by code_simp

theorem main_error_messages_witness:
  "main (example_session\<lparr>data_folder := None\<rparr>) = Error_Message Folder_Not_Found
   \<and> main (example_session\<lparr>data_folder := Some [(''notes.txt'', \<lparr>columns = [], rows = []\<rparr>)]\<rparr>)
       = Error_Message Missing_Required_Columns
   \<and> \<not> is_Error_Message (main example_session)"
proof (intro conjI)
  show "main (example_session\<lparr>data_folder := None\<rparr>) = Error_Message Folder_Not_Found"
    using main_error_messages[of "example_session\<lparr>data_folder := None\<rparr>"] by simp
next
  let ?s = "example_session\<lparr>data_folder := Some [(''notes.txt'', \<lparr>columns = [], rows = []\<rparr>)]\<rparr>"
  have l: "load_all_students_from_data_folder [(''notes.txt'', \<lparr>columns = [], rows = []\<rparr>)]
             = Inr \<lparr>columns = [], rows = []\<rparr>"
    by (simp add: load_all_students_from_data_folder_def endswith_def)
  have "\<exists>files loaded. data_folder ?s = Some files
           \<and> load_all_students_from_data_folder files = Inr loaded
           \<and> \<not> set required_cols \<subseteq> set (columns loaded)"
    using l by (simp add: required_cols_def)
  then show "main ?s = Error_Message Missing_Required_Columns"
    using main_error_messages[of ?s] by blast
next
  obtain loaded where l: "load_all_students_from_data_folder
        [(''Physics.xlsx'', example_sheet), (''notes.txt'', \<lparr>columns = [], rows = []\<rparr>)] = Inr loaded"
    and c: "set required_cols \<subseteq> set (columns loaded)"
    using example_load
    by (cases "load_all_students_from_data_folder
        [(''Physics.xlsx'', example_sheet), (''notes.txt'', \<lparr>columns = [], rows = []\<rparr>)]") auto
  have d: "data_folder example_session
         = Some [(''Physics.xlsx'', example_sheet), (''notes.txt'', \<lparr>columns = [], rows = []\<rparr>)]"
    by (simp add: example_session_def)
  have "\<not> (data_folder example_session = None
        \<or> (\<exists>files loaded. data_folder example_session = Some files
           \<and> load_all_students_from_data_folder files = Inr loaded
           \<and> \<not> set required_cols \<subseteq> set (columns loaded)))"
    using l c unfolding d by simp
  then show "\<not> is_Error_Message (main example_session)"
    using main_error_messages[of example_session] by blast
qed

section \<open>The chart page always finds the House column\<close>

lemma visualize_page_warning:
  "visualize_page df streams gender = Inr House_Not_Found \<Longrightarrow> ''House'' \<notin> set (columns df)"
  by (auto simp: visualize_page_def Let_def split: if_splits sum.splits)

lemma assign_houses_has_house:
  assumes "assign_houses df cnt w = Inr (a, cnt', w')" and "df < next_ref w"
  shows "''House'' \<in> set (columns (frames w' a))"
  using assign_houses_result(5)[OF assms] by (simp split: if_splits)

text \<open>
  Claim C10. Whenever \<open>main\<close> ends in the chart page, the frame that page was given is the
  one \<open>assign_houses\<close> returned for the loaded frame, it has a House column, and the page
  is not the warning that the House column is missing.
\<close>

theorem main_visualize_has_house:
  assumes "main s = Visualize_Page page"
  shows "page \<noteq> House_Not_Found
     \<and> (\<exists>files loaded a cnt' w'.
           data_folder s = Some files
         \<and> load_all_students_from_data_folder files = Inr loaded
         \<and> assign_houses 0 fresh_counts \<lparr>frames = (\<lambda>a. loaded), next_ref = 1, gen = draws s\<rparr>
               = Inr (a, cnt', w')
         \<and> ''House'' \<in> set (columns (frames w' a))
         \<and> visualize_page (frames w' a) (picked_streams s) (picked_gender_filter s) = Inr page)"
proof -
  from assms obtain files where f: "data_folder s = Some files"
    by (cases "data_folder s") (auto simp: main_def)
  from assms f obtain loaded where l: "load_all_students_from_data_folder files = Inr loaded"
    by (cases "load_all_students_from_data_folder files") (auto simp: main_def)
  from assms f l have rq: "set required_cols \<subseteq> set (columns loaded)"
    by (auto simp: main_def split: if_splits)
  define w where "w = \<lparr>frames = (\<lambda>a. loaded), next_ref = 1, gen = draws s\<rparr>"
  have m: "chosen_menu s = Menu_Visualize"
    using assms f l rq
    by (cases "chosen_menu s") (auto simp: main_def Let_def split: sum.splits prod.splits if_splits)
  have ms: "main s = (case assign_houses 0 fresh_counts w of
                            Inl e \<Rightarrow> Uncaught e
                          | Inr (assigned_df, cnt', w') \<Rightarrow>
                              (case visualize_page (frames w' assigned_df) (picked_streams s)
                                      (picked_gender_filter s) of
                                 Inl e \<Rightarrow> Uncaught e
                               | Inr page \<Rightarrow> Visualize_Page page))"
    using f l rq m by (simp add: main_def Let_def w_def fresh_counts_def)
  from assms obtain a cnt' w' where ah: "assign_houses 0 fresh_counts w = Inr (a, cnt', w')"
    unfolding ms by (cases "assign_houses 0 fresh_counts w") auto
  from assms have v: "visualize_page (frames w' a) (picked_streams s) (picked_gender_filter s) = Inr page"
    unfolding ms ah by (simp split: sum.splits)
  have h: "''House'' \<in> set (columns (frames w' a))"
    by (rule assign_houses_has_house[OF ah]) (simp add: w_def)
  have "page \<noteq> House_Not_Found" using v h visualize_page_warning by blast
  then show ?thesis using f l ah[unfolded w_def] h v by blast
qed

lemma example_session_charts:
  "case main example_session of Visualize_Page page \<Rightarrow> True | out \<Rightarrow> False"
  by code_simp

theorem main_visualize_has_house_witness:
  "\<exists>page. main example_session = Visualize_Page page \<and> page \<noteq> House_Not_Found"
proof -
  obtain page where p: "main example_session = Visualize_Page page"
    using example_session_charts by (cases "main example_session") auto
  from main_visualize_has_house[OF p] have "page \<noteq> House_Not_Found" by (rule conjunct1)
  with p show ?thesis by (intro exI conjI)
qed

section \<open>The export, sheet by sheet\<close>

lemma writer_raise_Inr [simp]: "writer_raise wb e \<noteq> Inr x"
  by (simp add: writer_raise_def)

lemma read_projected:
  "read_sheet \<lparr>title = t, header = cols, body = map (\<lambda>r. map r cols) rs\<rparr>
     = map (\<lambda>r col. if col \<in> set cols then r col else Null) rs"
  by (auto simp: read_sheet_def map_of_zip_map intro!: ext)

lemma enrollment_houses_restrict:
  "enrollment_houses (map (\<lambda>r col. if col \<in> set display_cols then r col else Null) rs)
     = enrollment_houses rs"
  by (simp add: enrollment_houses_def display_cols_def)

lemma enrollment_houses_append [simp]:
  "enrollment_houses (xs @ ys) = enrollment_houses xs @ enrollment_houses ys"
  by (simp add: enrollment_houses_def)

lemma read_workbook_append [simp]: "read_workbook (wb @ wb') = read_workbook wb @ read_workbook wb'"
  by (simp add: read_workbook_def)

lemma read_workbook_single [simp]: "read_workbook [sh] = read_sheet sh"
  by (simp add: read_workbook_def)

lemma mset_enrollment_houses:
  "mset xs = mset ys \<Longrightarrow> mset (enrollment_houses xs) = mset (enrollment_houses ys)"
  by (simp add: enrollment_houses_def)

lemma export_gender_Str:
  "export_gender df (Str s) g wb =
     (if ''Gender'' \<notin> set (columns df) then writer_raise wb KeyError
      else if combo_rows df s g = [] then Inr wb
      else (case select_columns display_cols (df\<lparr>rows := combo_rows df s g\<rparr>) of
              Inl e \<Rightarrow> writer_raise wb e
            | Inr projected \<Rightarrow>
                (case sort_values ''House'' projected of
                   Inl e \<Rightarrow> writer_raise wb e
                 | Inr export_df \<Rightarrow> to_excel export_df (sheet_title s g) wb)))"
  by (simp add: export_gender_def combo_rows_def sheet_title_def Let_def split: sum.split)

lemma select_columns_Inr:
  "select_columns cols t = Inr p \<Longrightarrow>
     p = \<lparr>columns = cols, rows = map (\<lambda>r col. if col \<in> set cols then r col else Null) (rows t)\<rparr>"
  by (simp add: select_columns_def split: if_splits)

lemma sort_values_Inr:
  "sort_values col t = Inr t' \<Longrightarrow> columns t' = columns t \<and> mset (rows t') = mset (rows t)"
  by (auto simp: sort_values_def split: if_splits)

lemma to_excel_fresh:
  "to_excel t name wb = Inr wb' \<Longrightarrow> name \<notin> set (map title wb) \<Longrightarrow>
     wb' = wb @ [\<lparr>title = name, header = columns t, body = map (\<lambda>r. map r (columns t)) (rows t)\<rparr>]"
  by (simp add: to_excel_def Let_def split: if_splits)

text \<open>What one step of the inner loop does to a workbook that has not the title yet.\<close>

lemma export_gender_fresh:
  assumes "export_gender df (Str s) g wb = Inr wb'"
    and "sheet_title s g \<notin> set (map title wb)"
  shows "mset (enrollment_houses (read_workbook wb'))
           = mset (enrollment_houses (read_workbook wb)) + mset (enrollment_houses (combo_rows df s g))
       \<and> set (map title wb') \<subseteq> insert (sheet_title s g) (set (map title wb))"
proof (cases "combo_rows df s g = []")
  case True
  then have "wb' = wb" using assms(1) unfolding export_gender_Str by (simp split: if_splits)
  then show ?thesis using True by (simp add: enrollment_houses_def subset_insertI)
next
  case False
  define gender_df where "gender_df = df\<lparr>rows := combo_rows df s g\<rparr>"
  have e1: "(case select_columns display_cols gender_df of
              Inl e \<Rightarrow> writer_raise wb e
            | Inr projected \<Rightarrow>
                (case sort_values ''House'' projected of
                   Inl e \<Rightarrow> writer_raise wb e
                 | Inr export_df \<Rightarrow> to_excel export_df (sheet_title s g) wb)) = Inr wb'"
    using assms(1) False unfolding export_gender_Str gender_df_def by (simp split: if_splits)
  then obtain projected where sel: "select_columns display_cols gender_df = Inr projected"
    by (cases "select_columns display_cols gender_df") auto
  from e1 have e2: "(case sort_values ''House'' projected of
                   Inl e \<Rightarrow> writer_raise wb e
                 | Inr export_df \<Rightarrow> to_excel export_df (sheet_title s g) wb) = Inr wb'"
    by (simp add: sel)
  then obtain export_df where srt: "sort_values ''House'' projected = Inr export_df"
    by (cases "sort_values ''House'' projected") auto
  from e2 have te: "to_excel export_df (sheet_title s g) wb = Inr wb'"
    by (simp add: srt)
  have proj: "projected = \<lparr>columns = display_cols,
       rows = map (\<lambda>r col. if col \<in> set display_cols then r col else Null) (combo_rows df s g)\<rparr>"
    using select_columns_Inr[OF sel] by (simp add: gender_df_def)
  have ex1: "columns export_df = display_cols" and ex2: "mset (rows export_df) = mset (rows projected)"
    using sort_values_Inr[OF srt] by (simp_all add: proj)
  have wb': "wb' = wb @ [\<lparr>title = sheet_title s g, header = display_cols,
                          body = map (\<lambda>r. map r display_cols) (rows export_df)\<rparr>]"
    using to_excel_fresh[OF te assms(2)] by (simp add: ex1)
  have "mset (enrollment_houses (read_workbook wb'))
      = mset (enrollment_houses (read_workbook wb))
        + mset (enrollment_houses (map (\<lambda>r col. if col \<in> set display_cols then r col else Null) (rows export_df)))"
    unfolding wb' by (simp only: read_workbook_append read_workbook_single read_projected
        enrollment_houses_append mset_append)
  also have "enrollment_houses (map (\<lambda>r col. if col \<in> set display_cols then r col else Null) (rows export_df))
      = enrollment_houses (rows export_df)"
    by (rule enrollment_houses_restrict)
  also have "mset (enrollment_houses (rows export_df)) = mset (enrollment_houses (rows projected))"
    by (rule mset_enrollment_houses[OF ex2])
  also have "enrollment_houses (rows projected) = enrollment_houses (combo_rows df s g)"
    unfolding proj by (simp only: table.simps enrollment_houses_restrict)
  finally have m: "mset (enrollment_houses (read_workbook wb'))
           = mset (enrollment_houses (read_workbook wb)) + mset (enrollment_houses (combo_rows df s g))" .
  have t: "set (map title wb') \<subseteq> insert (sheet_title s g) (set (map title wb))"
    unfolding wb' by auto
  from m t show ?thesis by (rule conjI)
qed

lemma sheet_title_inject:
  assumes "sheet_title s g = sheet_title s' g'" and "g \<in> {''M'', ''F''}" and "g' \<in> {''M'', ''F''}"
  shows "take 25 s = take 25 s' \<and> g = g'"
proof -
  have "length (''-'' @ take 5 g) = length (''-'' @ take 5 g')" using assms(2,3) by auto
  moreover have "take 25 s @ (''-'' @ take 5 g) = take 25 s' @ (''-'' @ take 5 g')"
    using assms(1) by (simp add: sheet_title_def)
  ultimately have "take 25 s = take 25 s'" and "''-'' @ take 5 g = ''-'' @ take 5 g'"
    by (metis append_eq_append_conv)+
  then show ?thesis using assms(2,3) by auto
qed

lemma export_genders_fresh:
  assumes "export_genders df (Str s) [''M'', ''F''] wb = Inr wb'"
    and "stream_titles s \<inter> set (map title wb) = {}"
  shows "mset (enrollment_houses (read_workbook wb'))
           = mset (enrollment_houses (read_workbook wb)) + combo_pairs df s
       \<and> set (map title wb') \<subseteq> stream_titles s \<union> set (map title wb)"
proof -
  from assms(1) obtain wb1 where m: "export_gender df (Str s) ''M'' wb = Inr wb1"
    and f: "export_gender df (Str s) ''F'' wb1 = Inr wb'"
    by (cases "export_gender df (Str s) ''M'' wb"; cases "export_gender df (Str s) ''F'' (projr (export_gender df (Str s) ''M'' wb))")
       (auto split: sum.splits)
  have tm: "sheet_title s ''M'' \<notin> set (map title wb)" and tf: "sheet_title s ''F'' \<notin> set (map title wb)"
    using assms(2) by (auto simp: stream_titles_def)
  note rm = export_gender_fresh[OF m tm]
  have ne: "sheet_title s ''F'' \<noteq> sheet_title s ''M''"
    using sheet_title_inject[of s "''F''" s "''M''"] by auto
  have tf1: "sheet_title s ''F'' \<notin> set (map title wb1)"
    using rm tf ne by blast
  note rf = export_gender_fresh[OF f tf1]
  have "mset (enrollment_houses (read_workbook wb'))
           = mset (enrollment_houses (read_workbook wb)) + combo_pairs df s"
    using rm rf by (simp add: combo_pairs_def)
  moreover have "set (map title wb') \<subseteq> stream_titles s \<union> set (map title wb)"
    using rm rf unfolding stream_titles_def by blast
  ultimately show ?thesis by (rule conjI)
qed

lemma export_streams_fresh:
  "export_streams df (map Str strs) wb = Inr wb' \<Longrightarrow>
   distinct strs \<Longrightarrow> inj_on (take 25) (set strs) \<Longrightarrow>
   (\<Union>s \<in> set strs. stream_titles s) \<inter> set (map title wb) = {} \<Longrightarrow>
     mset (enrollment_houses (read_workbook wb'))
       = mset (enrollment_houses (read_workbook wb)) + sum_list (map (combo_pairs df) strs)"
proof (induction strs arbitrary: wb)
  case Nil
  then show ?case by simp
next
  case (Cons s strs)
  from Cons.prems(1) obtain wb1 where g: "export_genders df (Str s) [''M'', ''F''] wb = Inr wb1"
    and rest: "export_streams df (map Str strs) wb1 = Inr wb'"
    by (cases "export_genders df (Str s) [''M'', ''F''] wb") auto
  have fresh: "stream_titles s \<inter> set (map title wb) = {}" using Cons.prems(4) by auto
  note r1 = export_genders_fresh[OF g fresh]
  have disj: "(\<Union>s' \<in> set strs. stream_titles s') \<inter> stream_titles s = {}"
  proof (rule ccontr)
    assume "(\<Union>s' \<in> set strs. stream_titles s') \<inter> stream_titles s \<noteq> {}"
    then obtain s' t where s': "s' \<in> set strs" and t: "t \<in> stream_titles s'" "t \<in> stream_titles s"
      by blast
    then obtain g g' where "t = sheet_title s' g'" "t = sheet_title s g"
      "g \<in> {''M'', ''F''}" "g' \<in> {''M'', ''F''}"
      unfolding stream_titles_def by blast
    then have "take 25 s = take 25 s'" using sheet_title_inject[of s g s' g'] by simp
    then have "s = s'" using Cons.prems(3) s' by (simp add: inj_on_def)
    then show False using Cons.prems(2) s' by simp
  qed
  have sub: "set (map title wb1) \<subseteq> stream_titles s \<union> set (map title wb)"
    using r1 by (rule conjunct2)
  have old: "(\<Union>s' \<in> set strs. stream_titles s') \<inter> set (map title wb) = {}"
    using Cons.prems(4) by auto
  have fresh_rest: "(\<Union>s' \<in> set strs. stream_titles s') \<inter> set (map title wb1) = {}"
    using sub old disj by blast
  have "mset (enrollment_houses (read_workbook wb'))
       = mset (enrollment_houses (read_workbook wb1)) + sum_list (map (combo_pairs df) strs)"
    using Cons.IH[OF rest] Cons.prems(2,3) fresh_rest by simp
  then show ?case using r1 by simp
qed

lemma cell_eq_Str [simp]: "cell_eq a (Str x) \<longleftrightarrow> a = Str x"
  by (auto simp: cell_eq_def)

lemma export_gender_not_Str:
  assumes "\<not> is_Str stream" and "export_gender df stream g wb = Inr wb'"
  shows "wb' = wb"
proof (cases stream)
  case Null
  then show ?thesis using assms(2)
    by (simp add: export_gender_def cell_eq_def split: if_splits)
next
  case (Num n)
  then show ?thesis using assms(2)
    by (simp add: export_gender_def Let_def split: if_splits sum.splits)
next
  case (Str s)
  then show ?thesis using assms(1) by simp
qed

lemma export_streams_not_Str:
  "\<forall>c \<in> set ss. \<not> is_Str c \<Longrightarrow> export_streams df ss wb = Inr wb' \<Longrightarrow> wb' = wb"
proof (induction ss arbitrary: wb)
  case Nil
  then show ?case by simp
next
  case (Cons c ss)
  from Cons.prems(2) obtain wb1 wb2 where m: "export_gender df c ''M'' wb = Inr wb1"
    and f: "export_gender df c ''F'' wb1 = Inr wb2"
    and rest: "export_streams df ss wb2 = Inr wb'"
    by (auto split: sum.splits)
  have c: "\<not> is_Str c" using Cons.prems(1) by simp
  have "wb1 = wb" by (rule export_gender_not_Str[OF c m])
  moreover have "wb2 = wb1" by (rule export_gender_not_Str[OF c f])
  moreover have "wb' = wb2" using Cons.IH[OF _ rest] Cons.prems(1) by simp
  ultimately show ?case by simp
qed

lemma sum_list_none:
  "x0 \<notin> set xs \<Longrightarrow> sum_list (map (\<lambda>s. if s = x0 then (M :: 'b multiset) else {#}) xs) = {#}"
  by (induction xs) auto

lemma sum_list_single:
  "distinct xs \<Longrightarrow> x0 \<in> set xs \<Longrightarrow>
     sum_list (map (\<lambda>s. if s = x0 then (M :: 'b multiset) else {#}) xs) = M"
  by (induction xs) (auto simp: sum_list_none)

lemma sum_over_streams:
  assumes "distinct strs" and "\<forall>r \<in> set rs. r ''Stream'' \<in> Str ` set strs"
  shows "sum_list (map (\<lambda>s. mset (map f (filter (\<lambda>r. r ''Stream'' = Str s \<and> G r) rs))) strs)
       = mset (map f (filter G rs))"
  using assms(2)
proof (induction rs)
  case Nil
  then show ?case by (induction strs) auto
next
  case (Cons r rs)
  from Cons.prems obtain s0 where s0: "s0 \<in> set strs" "r ''Stream'' = Str s0" by auto
  have split: "\<And>s. mset (map f (filter (\<lambda>r. r ''Stream'' = Str s \<and> G r) (r # rs)))
      = (if s = s0 then (if G r then {#f r#} else {#}) else {#})
        + mset (map f (filter (\<lambda>r. r ''Stream'' = Str s \<and> G r) rs))"
    using s0(2) by auto
  have "sum_list (map (\<lambda>s. mset (map f (filter (\<lambda>r. r ''Stream'' = Str s \<and> G r) (r # rs)))) strs)
      = sum_list (map (\<lambda>s. if s = s0 then (if G r then {#f r#} else {#}) else {#}) strs)
        + sum_list (map (\<lambda>s. mset (map f (filter (\<lambda>r. r ''Stream'' = Str s \<and> G r) rs))) strs)"
    unfolding split by (rule sum_list_addf)
  also have "sum_list (map (\<lambda>s. if s = s0 then (if G r then {#f r#} else {#}) else {#}) strs)
      = (if G r then {#f r#} else {#})"
    by (rule sum_list_single[OF assms(1) s0(1)])
  also have "sum_list (map (\<lambda>s. mset (map f (filter (\<lambda>r. r ''Stream'' = Str s \<and> G r) rs))) strs)
      = mset (map f (filter G rs))"
    using Cons by simp
  finally show ?case by simp
qed

lemma filter_either:
  "(\<And>x. \<not> (P x \<and> Q x)) \<Longrightarrow>
     mset (map f (filter P xs)) + mset (map f (filter Q xs))
       = mset (map f (filter (\<lambda>x. P x \<or> Q x) xs))"
  by (induction xs) auto

lemma sum_combo_pairs:
  assumes "distinct strs" and "\<forall>r \<in> set (rows df). r ''Stream'' \<in> Str ` set strs"
  shows "sum_list (map (combo_pairs df) strs)
       = mset (enrollment_houses (filter (\<lambda>r. r ''Gender'' = Str ''M'' \<or> r ''Gender'' = Str ''F'') (rows df)))"
proof -
  let ?f = "\<lambda>r. (r ''Enrollment No'', r ''House'')"
  have "sum_list (map (combo_pairs df) strs)
      = sum_list (map (\<lambda>s. mset (map ?f (filter (\<lambda>r. r ''Stream'' = Str s \<and> r ''Gender'' = Str ''M'') (rows df)))) strs)
        + sum_list (map (\<lambda>s. mset (map ?f (filter (\<lambda>r. r ''Stream'' = Str s \<and> r ''Gender'' = Str ''F'') (rows df)))) strs)"
    unfolding combo_pairs_def combo_rows_def enrollment_houses_def cell_eq_Str by (rule sum_list_addf)
  also have "\<dots> = mset (map ?f (filter (\<lambda>r. r ''Gender'' = Str ''M'') (rows df)))
                + mset (map ?f (filter (\<lambda>r. r ''Gender'' = Str ''F'') (rows df)))"
    unfolding sum_over_streams[OF assms, of ?f] ..
  also have "\<dots> = mset (map ?f (filter (\<lambda>r. r ''Gender'' = Str ''M'' \<or> r ''Gender'' = Str ''F'') (rows df)))"
    by (rule filter_either) simp
  finally show ?thesis by (simp add: enrollment_houses_def)
qed

lemma unique_distinct: "distinct (unique xs)"
  by (simp add: unique_def)

lemma unique_set: "set (unique xs) = set xs"
  by (simp add: unique_def)

lemma all_Str_map:
  "\<forall>c \<in> set ss. is_Str c \<Longrightarrow>
     ss = map Str (map (\<lambda>c. case c of Str s \<Rightarrow> s | Num n \<Rightarrow> [] | Null \<Rightarrow> []) ss)"
proof (induction ss)
  case Nil
  then show ?case by simp
next
  case (Cons c ss)
  then show ?case by (cases c) auto
qed

section \<open>Exporting and reading back\<close>

text \<open>The workbook of the concrete run: one sheet for the men, one for the woman.\<close>

lemma example_export:
  "get_excel_download example_assigned =
     Inr [\<lparr>title = ''Physics-M'', header = display_cols,
            body = [[Str ''E3'', Str ''NE3'', Str ''M'', Str ''Physics'', Num 1, Str ''House A''],
                    [Str ''E1'', Str ''NE1'', Str ''M'', Str ''Physics'', Num 1, Str ''House B'']]\<rparr>,
          \<lparr>title = ''Physics-F'', header = display_cols,
            body = [[Str ''E2'', Str ''NE2'', Str ''F'', Str ''Physics'', Num 1, Str ''House A'']]\<rparr>]"
  unfolding example_assigned_def by code_simp

lemma example_no_collision: "\<not> titles_collide example_assigned"
  unfolding example_assigned_def by code_simp

text \<open>
  Claim C3, as the specification states it: exporting an assigned table and reading the
  workbook back gives the same mapping from enrollment identifier to house as the table
  held. It fails on the frame the concrete run returns. The frame holds four enrollment
  identifiers, \<open>E4\<close> with the house \<open>None\<close>; the export loops over the genders \<open>"M"\<close> and \<open>"F"\<close>
  only, the row of \<open>E4\<close> has no gender and is on no sheet, and the workbook holds three
  identifiers. The titles of the sheets do not collide here.
\<close>

theorem export_round_trip_counterexample:
  "\<not> isl (assign_houses 0 fresh_counts example_world)
   \<and> \<not> isl (get_excel_download example_assigned)
   \<and> \<not> titles_collide example_assigned
   \<and> enrollment_houses (rows example_assigned) =
       [(Str ''E1'', Str ''House B''), (Str ''E2'', Str ''House A''),
        (Str ''E3'', Str ''House A''), (Str ''E4'', Null)]
   \<and> enrollment_houses (read_workbook (projr (get_excel_download example_assigned))) =
       [(Str ''E3'', Str ''House A''), (Str ''E1'', Str ''House B''),
        (Str ''E2'', Str ''House A'')]
   \<and> Str ''E4'' \<in> fst ` set (enrollment_houses (rows example_assigned))
   \<and> Str ''E4'' \<notin> fst ` set (enrollment_houses
                                (read_workbook (projr (get_excel_download example_assigned))))"
  unfolding example_assigned_def by code_simp

text \<open>
  Claim C3, amended. For every table whose export returns a workbook and in which no two
  different streams agree on their first 25 characters, reading the workbook back gives
  exactly the pairs of enrollment identifier and house of the rows whose gender is \<open>"M"\<close> or
  \<open>"F"\<close>, each pair as often as the table holds it. Rows of another gender, or of none, are
  not exported. Nothing is said of a table in which two streams agree on their first 25
  characters.
\<close>

theorem export_round_trip:
  assumes "get_excel_download df = Inr wb" and "\<not> titles_collide df"
  shows "mset (enrollment_houses (read_workbook wb))
       = mset (enrollment_houses
                 (filter (\<lambda>r. r ''Gender'' = Str ''M'' \<or> r ''Gender'' = Str ''F'') (rows df)))"
proof -
  define uq where "uq = unique (column ''Stream'' df)"
  define ss where "ss = sort_key cell_rank uq"
  define strs where "strs = map (\<lambda>c. case c of Str s \<Rightarrow> s | Num n \<Rightarrow> [] | Null \<Rightarrow> []) ss"
  have unf: "get_excel_download df =
     (if ''Stream'' \<notin> set (columns df) then writer_raise [] KeyError
      else (case py_sorted uq of
              Inl e \<Rightarrow> writer_raise [] e
            | Inr streams \<Rightarrow>
                (case export_streams df streams [] of
                   Inl e \<Rightarrow> Inl e
                 | Inr wb \<Rightarrow> if List.null wb then Inl IndexError else Inr wb)))"
    unfolding get_excel_download_def uq_def by (rule refl)
  from assms(1) obtain streams where ps: "py_sorted uq = Inr streams"
    unfolding unf by (cases "py_sorted uq") (auto split: if_splits)
  have streams: "streams = ss" and not_mixed: "\<not> (list_ex is_Str uq \<and> list_ex (\<lambda>x. \<not> is_Str x) uq)"
    using ps by (auto simp: py_sorted_def ss_def split: if_splits)
  from assms(1) have run: "export_streams df ss [] = Inr wb" and ne: "wb \<noteq> []"
    unfolding unf ps streams by (auto split: if_splits sum.splits)
  have set_ss: "set ss = set (column ''Stream'' df)"
    by (simp add: ss_def uq_def unique_set)
  have "list_ex is_Str uq"
  proof (rule ccontr)
    assume "\<not> list_ex is_Str uq"
    then have "\<forall>c \<in> set ss. \<not> is_Str c" by (simp add: list_ex_iff ss_def)
    from export_streams_not_Str[OF this run] ne show False by simp
  qed
  with not_mixed have "\<not> list_ex (\<lambda>x. \<not> is_Str x) uq" by simp
  then have all_str: "\<forall>c \<in> set ss. is_Str c" by (simp add: list_ex_iff ss_def)
  have ss_map: "ss = map Str strs" unfolding strs_def by (rule all_Str_map[OF all_str])
  have "distinct ss" by (simp add: ss_def uq_def unique_distinct)
  then have d: "distinct strs" unfolding ss_map by (simp add: distinct_map)
  have rows_in: "\<forall>r \<in> set (rows df). r ''Stream'' \<in> Str ` set strs"
  proof
    fix r assume "r \<in> set (rows df)"
    then have "r ''Stream'' \<in> set (column ''Stream'' df)" by (simp add: column_def)
    then show "r ''Stream'' \<in> Str ` set strs" using set_ss ss_map by (metis set_map)
  qed
  have "inj_on (\<lambda>c. case c of Str s \<Rightarrow> take 25 s | Num n \<Rightarrow> [] | Null \<Rightarrow> []) (Str ` set strs)"
    using assms(2) set_ss ss_map unfolding titles_collide_def by (metis set_map)
  moreover have "inj_on Str (set strs)" by (simp add: inj_on_def)
  ultimately have "inj_on ((\<lambda>c. case c of Str s \<Rightarrow> take 25 s | Num n \<Rightarrow> [] | Null \<Rightarrow> []) \<circ> Str) (set strs)"
    by (rule comp_inj_on[rotated])
  then have inj: "inj_on (take 25) (set strs)" by (simp add: comp_def)
  have fresh: "(\<Union>s \<in> set strs. stream_titles s) \<inter> set (map title ([] :: workbook)) = {}" by simp
  from export_streams_fresh[OF run[unfolded ss_map] d inj fresh]
  have "mset (enrollment_houses (read_workbook wb)) = sum_list (map (combo_pairs df) strs)"
    by (simp add: read_workbook_def enrollment_houses_def)
  also have "\<dots> = mset (enrollment_houses
                 (filter (\<lambda>r. r ''Gender'' = Str ''M'' \<or> r ''Gender'' = Str ''F'') (rows df)))"
    by (rule sum_combo_pairs[OF d rows_in])
  finally show ?thesis .
qed

theorem export_round_trip_witness:
  "\<exists>wb. get_excel_download example_assigned = Inr wb
     \<and> \<not> titles_collide example_assigned
     \<and> mset (enrollment_houses (read_workbook wb))
       = mset (enrollment_houses
                 (filter (\<lambda>r. r ''Gender'' = Str ''M'' \<or> r ''Gender'' = Str ''F'')
                    (rows example_assigned)))
     \<and> mset (enrollment_houses (read_workbook wb))
       = {#(Str ''E1'', Str ''House B''), (Str ''E2'', Str ''House A''),
           (Str ''E3'', Str ''House A'')#}"
proof (intro exI conjI)
  show e: "get_excel_download example_assigned = Inr
        [\<lparr>title = ''Physics-M'', header = display_cols,
            body = [[Str ''E3'', Str ''NE3'', Str ''M'', Str ''Physics'', Num 1, Str ''House A''],
                    [Str ''E1'', Str ''NE1'', Str ''M'', Str ''Physics'', Num 1, Str ''House B'']]\<rparr>,
          \<lparr>title = ''Physics-F'', header = display_cols,
            body = [[Str ''E2'', Str ''NE2'', Str ''F'', Str ''Physics'', Num 1, Str ''House A'']]\<rparr>]"
    by (rule example_export)
  show c: "\<not> titles_collide example_assigned" by (rule example_no_collision)
  show "mset (enrollment_houses (read_workbook
        [\<lparr>title = ''Physics-M'', header = display_cols,
            body = [[Str ''E3'', Str ''NE3'', Str ''M'', Str ''Physics'', Num 1, Str ''House A''],
                    [Str ''E1'', Str ''NE1'', Str ''M'', Str ''Physics'', Num 1, Str ''House B'']]\<rparr>,
          \<lparr>title = ''Physics-F'', header = display_cols,
            body = [[Str ''E2'', Str ''NE2'', Str ''F'', Str ''Physics'', Num 1, Str ''House A'']]\<rparr>]))
       = mset (enrollment_houses
                 (filter (\<lambda>r. r ''Gender'' = Str ''M'' \<or> r ''Gender'' = Str ''F'')
                    (rows example_assigned)))"
    by (rule export_round_trip[OF e c])
  show "mset (enrollment_houses (read_workbook
        [\<lparr>title = ''Physics-M'', header = display_cols,
            body = [[Str ''E3'', Str ''NE3'', Str ''M'', Str ''Physics'', Num 1, Str ''House A''],
                    [Str ''E1'', Str ''NE1'', Str ''M'', Str ''Physics'', Num 1, Str ''House B'']]\<rparr>,
          \<lparr>title = ''Physics-F'', header = display_cols,
            body = [[Str ''E2'', Str ''NE2'', Str ''F'', Str ''Physics'', Num 1, Str ''House A'']]\<rparr>]))
       = {#(Str ''E1'', Str ''House B''), (Str ''E2'', Str ''House A''),
           (Str ''E3'', Str ''House A'')#}"
    by (simp add: read_workbook_def read_sheet_def enrollment_houses_def display_cols_def)
qed

section \<open>Two streams on one sheet\<close>

text \<open>
  Claim C8 says that the exporter produces one worksheet for each combination of stream
  and gender that has rows. The title of a sheet is made of the first 25 characters of the
  stream, and a second \<open>to_excel\<close> with a title the workbook already has writes into the
  sheet of that title. For the two streams \<open>Bachelor of Technology in AI\<close> and
  \<open>Bachelor of Technology in CS\<close>, each with one man, the export returns a workbook of one
  sheet: the row of \<open>E2\<close>, written first, is overwritten by the row of \<open>E1\<close>.
\<close>

theorem get_excel_download_collision:
  "\<not> isl (assign_houses 0 fresh_counts collide_world)
   \<and> map (\<lambda>r. map r display_cols) (rows collide_assigned) =
       [[Str ''E1'', Str ''NE1'', Str ''M'', Str ''Bachelor of Technology in CS'', Num 1,
         Str ''House B''],
        [Str ''E2'', Str ''NE2'', Str ''M'', Str ''Bachelor of Technology in AI'', Num 1,
         Str ''House A'']]
   \<and> get_excel_download collide_assigned =
       Inr [\<lparr>title = ''Bachelor of Technology in-M'', header = display_cols,
              body = [[Str ''E1'', Str ''NE1'', Str ''M'', Str ''Bachelor of Technology in CS'',
                       Num 1, Str ''House B'']]\<rparr>]"
  unfolding collide_assigned_def by code_simp

end
